theory Spec2Isabelle
  imports Complex_Main "HOL-Library.AList"
begin

section \<open>Packet model\<close>

text \<open>
  \<^verbatim>\<open>src/types/stream.ts\<close>: \<^verbatim>\<open>StreamStatus\<close> is a union of four string
  literals and \<^verbatim>\<open>StreamPacket\<close> an interface of ten fields. The numbers the
  hook stores in a packet (\<^verbatim>\<open>Date.now()\<close> readings, counters, block numbers)
  are integers, so the fields of type \<^verbatim>\<open>number\<close> are \<open>int\<close>. The free-form
  \<^verbatim>\<open>data\<close> payload is a list of key/value pairs in the order the object
  literal writes them; its values are strings, or \<^verbatim>\<open>undefined\<close> where
  the source copies an optional field. \<open>NumberToString x suffix\<close> stands for the
  string that \<^verbatim>\<open>Number.prototype.toString\<close> gives for the double \<open>x\<close>, followed
  by \<open>suffix\<close>; its digits are not spelled out. The field \<^verbatim>\<open>id\<close> is written \<open>id'\<close>.
\<close>

datatype StreamStatus = Streamed | Indexed | Consolidated | Finalized

datatype JsValue = Str string | Undefined | NumberToString rat string

record StreamPacket =
  id' :: string
  status :: StreamStatus
  timestamp :: int
  eventType :: string
  source :: string
  data :: "(string \<times> JsValue) list"
  confirmations :: int
  hash :: string
  lastStageTime :: int
  blockNumber :: int

definition STAGE_DURATION :: int where
  "STAGE_DURATION = 300"

definition MAX_STREAMS :: nat where
  "MAX_STREAMS = 100"

definition MAX_TX_PER_BLOCK :: nat where
  "MAX_TX_PER_BLOCK = 50"

text \<open>The lookup table \<^verbatim>\<open>statusProgression\<close> of \<^verbatim>\<open>getNextStatus\<close>.\<close>

fun getNextStatus :: "StreamStatus \<Rightarrow> StreamStatus" where
  "getNextStatus Streamed = Indexed"
| "getNextStatus Indexed = Consolidated"
| "getNextStatus Consolidated = Finalized"
| "getNextStatus Finalized = Finalized"

text \<open>The lookup table \<^verbatim>\<open>statusOrder\<close> inside \<^verbatim>\<open>deduplicateStreams\<close>.\<close>

fun statusOrder :: "StreamStatus \<Rightarrow> nat" where
  "statusOrder Streamed = 0"
| "statusOrder Indexed = 1"
| "statusOrder Consolidated = 2"
| "statusOrder Finalized = 3"

section \<open>Deduplication\<close>

text \<open>
  \<^verbatim>\<open>deduplicateStreams\<close> fills a JavaScript \<^verbatim>\<open>Map\<close> in one pass and returns
  \<^verbatim>\<open>Array.from(seen.values())\<close>. A \<^verbatim>\<open>Map\<close> iterates in the order in which
  its keys were first set, and setting an existing key replaces the value where it
  stands: that is an association list with \<open>AList.update\<close>. The loop body first
  asks \<^verbatim>\<open>seen.has(stream.id)\<close> and in the other branch reads
  \<^verbatim>\<open>seen.get(stream.id)!\<close>; both are the one lookup \<open>map_of\<close> below.
\<close>

definition dedupStep ::
  "(string \<times> StreamPacket) list \<Rightarrow> StreamPacket \<Rightarrow> (string \<times> StreamPacket) list" where
  "dedupStep seen stream =
     (case map_of seen (id' stream) of
        None \<Rightarrow> AList.update (id' stream) stream seen
      | Some existing \<Rightarrow>
          if statusOrder (status stream) > statusOrder (status existing)
          then AList.update (id' stream) stream seen
          else seen)"

definition deduplicateStreams :: "StreamPacket list \<Rightarrow> StreamPacket list" where
  "deduplicateStreams streams = map snd (foldl dedupStep [] streams)"

text \<open>
  What the algorithm of the design document keeps for a repeated id, in its words:
  the packet with the strictly greater status order, and among packets of equal
  order the first seen. A packet \<open>r\<close> of the input is that packet when every
  packet of its id before it has a strictly smaller order and every packet of its
  id after it has a smaller or equal order.
\<close>

definition keptFirstBest :: "StreamPacket list \<Rightarrow> StreamPacket \<Rightarrow> bool" where
  "keptFirstBest xs r \<longleftrightarrow>
     (\<exists>ys zs. xs = ys @ r # zs
        \<and> (\<forall>q\<in>set ys. id' q = id' r \<longrightarrow> statusOrder (status q) < statusOrder (status r))
        \<and> (\<forall>q\<in>set zs. id' q = id' r \<longrightarrow> statusOrder (status q) \<le> statusOrder (status r)))"

section \<open>Transactions to packets\<close>

text \<open>
  The block source returns blocks of transactions (viem's \<^verbatim>\<open>getBlock\<close> with
  \<^verbatim>\<open>includeTransactions: true\<close>). The hook reads five fields of a
  transaction, each of which may be absent; \<^verbatim>\<open>value\<close> and \<^verbatim>\<open>gas\<close> are
  bigints (wei and gas units).
\<close>

record Transaction =
  tx_hash :: "string option"
  tx_from :: "string option"
  tx_to :: "string option"
  tx_value :: "nat option"
  tx_gas :: "nat option"

record Block =
  block_hash :: "string option"
  block_number :: "nat option"
  transactions :: "Transaction list"

text \<open>
  JavaScript's \<^verbatim>\<open>a || b\<close> on an optional string: the absent value and the
  empty string are falsy.
\<close>

definition truthy :: "string option \<Rightarrow> bool" where
  "truthy a = (case a of None \<Rightarrow> False | Some s \<Rightarrow> s \<noteq> [])"

definition orElse :: "string option \<Rightarrow> string \<Rightarrow> string" where
  "orElse a b = (case a of None \<Rightarrow> b | Some s \<Rightarrow> if s = [] then b else s)"

text \<open>\<^verbatim>\<open>String.prototype.toLowerCase\<close> on the ASCII letters of a hash.\<close>

definition toLowerChar :: "char \<Rightarrow> char" where
  "toLowerChar c =
     (case map_of (zip ''ABCDEFGHIJKLMNOPQRSTUVWXYZ'' ''abcdefghijklmnopqrstuvwxyz'') c of
        None \<Rightarrow> c
      | Some l \<Rightarrow> l)"

definition toLowerCase :: "string \<Rightarrow> string" where
  "toLowerCase s = map toLowerChar s"

text \<open>Decimal rendering of integers, as in template literals and \<^verbatim>\<open>toString()\<close>.\<close>

fun natToString :: "nat \<Rightarrow> string" where
  "natToString n =
     (if n < 10 then [''0123456789'' ! n]
      else natToString (n div 10) @ [''0123456789'' ! (n mod 10)])"

declare natToString.simps [simp del]

definition intToString :: "int \<Rightarrow> string" where
  "intToString i = (if i < 0 then CHR ''-'' # natToString (nat (- i)) else natToString (nat i))"

text \<open>
  JavaScript numbers are IEEE 754 doubles: 53 significant bits, every result rounded
  to the nearest double, to the one with the even significand on a tie. A finite
  non-negative double is written here as the rational number it is exactly, and
  the one infinity the hook can meet as \<open>PosInfinity\<close>.

  \<open>downScale N D\<close> is the power of two by which \<open>D\<close> must be multiplied for the
  quotient \<open>N / D\<close> to fall below \<open>2\<^sup>5\<^sup>3\<close>, and \<open>upScale N D\<close> the power of two by
  which \<open>N\<close> must be multiplied for it to reach \<open>2\<^sup>5\<^sup>2\<close>; the scaled quotient then
  has its 53 significant bits before the binary point, where \<open>roundHalfEven\<close>
  rounds it to an integer.
\<close>

datatype JsNumber = Finite rat | PosInfinity

function downScale :: "nat \<Rightarrow> nat \<Rightarrow> nat" where
  "downScale N D =
     (if D = 0 \<or> N < 9007199254740992 * D then 1 else 2 * downScale N (2 * D))"
  by pat_completeness auto
termination
  by (relation "measure (\<lambda>(N, D). N - D)") auto

function upScale :: "nat \<Rightarrow> nat \<Rightarrow> nat" where
  "upScale N D =
     (if N = 0 \<or> 4503599627370496 * D \<le> N then 1 else 2 * upScale (2 * N) D)"
  by pat_completeness auto
termination
  by (relation "measure (\<lambda>(N, D). 4503599627370496 * D - N)") auto

declare downScale.simps [simp del]

declare upScale.simps [simp del]

definition roundHalfEven :: "nat \<Rightarrow> nat \<Rightarrow> nat" where
  "roundHalfEven N D =
     (let m = N div D; r = N mod D
      in if 2 * r > D \<or> (2 * r = D \<and> odd m) then m + 1 else m)"

text \<open>
  \<open>roundNat v\<close> is the double nearest to the integer \<open>v\<close>, still as an integer, and
  \<open>divideDouble N D\<close> the double nearest to the quotient \<open>N / D\<close> of two positive
  integers (in the range of normal doubles, which the quotients below never leave).
\<close>

definition roundNat :: "nat \<Rightarrow> nat" where
  "roundNat v = (let dn = downScale v 1 in roundHalfEven v dn * dn)"

definition divideDouble :: "nat \<Rightarrow> nat \<Rightarrow> rat" where
  "divideDouble N D =
     (let dn = downScale N D;
          up = upScale N (D * dn)
      in of_nat (roundHalfEven (N * up) (D * dn)) * of_nat dn / of_nat up)"

text \<open>
  \<^verbatim>\<open>tx.value ? Number(tx.value) / 1e18 : 0\<close>. \<^verbatim>\<open>Number\<close> of a bigint is the
  nearest double, and infinity when that is \<open>2\<^sup>1\<^sup>0\<^sup>2\<^sup>4\<close>; \<^verbatim>\<open>1e18\<close> is a double
  exactly, and the division rounds the exact quotient once more. The literal
  \<^verbatim>\<open>0.01\<close> is the double nearest to one hundredth.
\<close>

definition txValue :: "Transaction \<Rightarrow> JsNumber" where
  "txValue tx =
     (case tx_value tx of
        None \<Rightarrow> Finite 0
      | Some v \<Rightarrow>
          if v = 0 then Finite 0
          else (let a = roundNat v
                in if 2 ^ 1024 \<le> a then PosInfinity
                   else Finite (divideDouble a 1000000000000000000)))"

definition zeroPointZeroOne :: rat where
  "zeroPointZeroOne = divideDouble 1 100"

definition exceeds :: "JsNumber \<Rightarrow> rat \<Rightarrow> bool" where
  "exceeds x y = (case x of Finite a \<Rightarrow> a > y | PosInfinity \<Rightarrow> True)"

text \<open>
  \<^verbatim>\<open>txValue.toFixed(6)\<close> followed by the currency symbol. Below \<open>10\<^sup>2\<^sup>1\<close>,
  \<^verbatim>\<open>toFixed(6)\<close> takes the integer \<open>n\<close> for which \<open>n / 10\<^sup>6\<close> is nearest to the
  exact value of the double, the larger one on a tie, and prints it with six
  decimals; from \<open>10\<^sup>2\<^sup>1\<close> on it is \<^verbatim>\<open>toString\<close>, and for infinity the word.
\<close>

definition padLeft6 :: "string \<Rightarrow> string" where
  "padLeft6 s = replicate (6 - length s) CHR ''0'' @ s"

definition toFixed6 :: "rat \<Rightarrow> string" where
  "toFixed6 x =
     (let n = nat \<lfloor>x * 1000000 + 1 / 2\<rfloor>
      in natToString (n div 1000000) @ ''.'' @ padLeft6 (natToString (n mod 1000000)))"

definition valueText :: "JsNumber \<Rightarrow> string \<Rightarrow> JsValue" where
  "valueText x currencySymbol =
     (case x of
        PosInfinity \<Rightarrow> Str (''Infinity'' @ '' '' @ currencySymbol)
      | Finite a \<Rightarrow>
          if a < 1000000000000000000000 then Str (toFixed6 a @ '' '' @ currencySymbol)
          else NumberToString a ('' '' @ currencySymbol))"

text \<open>
  The callback of \<^verbatim>\<open>txsToShow.map\<close> in \<^verbatim>\<open>useSomniaStreams.ts\<close> (the
  WebSocket handler and the polling fallback build the same object).
  \<open>blockNo\<close> is \<^verbatim>\<open>Number(block.number) || 0\<close>.
\<close>

definition blockNo :: "nat option \<Rightarrow> int" where
  "blockNo n = (case n of None \<Rightarrow> 0 | Some k \<Rightarrow> int k)"

definition txId :: "int \<Rightarrow> nat \<Rightarrow> Transaction \<Rightarrow> string" where
  "txId now index tx =
     toLowerCase (orElse (tx_hash tx) (''tx_'' @ intToString now @ ''_'' @ natToString index))"

definition txToPacket ::
  "string \<Rightarrow> int \<Rightarrow> nat option \<Rightarrow> nat \<Rightarrow> Transaction \<Rightarrow> StreamPacket" where
  "txToPacket currencySymbol now number index tx =
     (let isHighValue = exceeds (txValue tx) zeroPointZeroOne
      in \<lparr> id' = txId now index tx,
           status = Streamed,
           timestamp = now,
           eventType = (if isHighValue then ''Transfer'' else ''Transaction''),
           source = orElse (tx_from tx) ''0x0'',
           data =
             [(''to'', Str (orElse (tx_to tx) ''Contract Creation'')),
              (''value'', valueText (txValue tx) currencySymbol),
              (''gas'', Str (case tx_gas tx of None \<Rightarrow> ''N/A'' | Some g \<Rightarrow> natToString g)),
              (''type'', Str (if truthy (tx_to tx) then ''Transfer'' else ''Contract Deploy''))],
           confirmations = 0,
           hash = txId now index tx,
           lastStageTime = now,
           blockNumber = blockNo number \<rparr>)"

text \<open>
  The polling-only hook adds two entries to \<^verbatim>\<open>data\<close>: \<^verbatim>\<open>txHash: tx.hash\<close>
  and \<^verbatim>\<open>blockHash: block.hash\<close>, copied as they are.
\<close>

definition optValue :: "string option \<Rightarrow> JsValue" where
  "optValue a = (case a of None \<Rightarrow> Undefined | Some s \<Rightarrow> Str s)"

definition txToPacketPolling ::
  "string \<Rightarrow> int \<Rightarrow> Block \<Rightarrow> nat \<Rightarrow> Transaction \<Rightarrow> StreamPacket" where
  "txToPacketPolling currencySymbol now block index tx =
     (let p = txToPacket currencySymbol now (block_number block) index tx
      in p\<lparr>data := data p @
               [(''txHash'', optValue (tx_hash tx)), (''blockHash'', optValue (block_hash block))]\<rparr>)"

definition mapTransactions :: "string \<Rightarrow> int \<Rightarrow> nat option \<Rightarrow> Transaction list \<Rightarrow> StreamPacket list" where
  "mapTransactions currencySymbol now number txsToShow =
     map (\<lambda>(index, tx). txToPacket currencySymbol now number index tx)
       (enumerate 0 txsToShow)"

definition mapTransactionsPolling :: "string \<Rightarrow> int \<Rightarrow> Block \<Rightarrow> Transaction list \<Rightarrow> StreamPacket list" where
  "mapTransactionsPolling currencySymbol now block txsToShow =
     map (\<lambda>(index, tx). txToPacketPolling currencySymbol now block index tx)
       (enumerate 0 txsToShow)"

section \<open>The two writers of the packet collection\<close>

text \<open>
  The updater that every ingestion path passes to \<^verbatim>\<open>setStreams\<close>: new packets
  whose id is not yet in the collection go in front, the result is deduplicated and
  cut with \<^verbatim>\<open>slice(0, MAX_STREAMS)\<close>; with no such packet \<^verbatim>\<open>prev\<close> is
  returned as it is.
\<close>

definition ingestUpdater :: "StreamPacket list \<Rightarrow> StreamPacket list \<Rightarrow> StreamPacket list" where
  "ingestUpdater newStreams prev =
     (let existingIds = set (map id' prev);
          uniqueNewStreams = filter (\<lambda>s. id' s \<notin> existingIds) newStreams
      in if length uniqueNewStreams > 0
         then take MAX_STREAMS (deduplicateStreams (uniqueNewStreams @ prev))
         else prev)"

text \<open>
  The callback of \<^verbatim>\<open>updatedStreams.map\<close> in the progression interval.
  \<^verbatim>\<open>stream.lastStageTime && \<dots>\<close> tests the number for truthiness: zero is falsy.
\<close>

definition progressStream :: "int \<Rightarrow> StreamPacket \<Rightarrow> StreamPacket" where
  "progressStream now stream =
     (if status stream = Finalized then stream\<lparr>confirmations := 3\<rparr>
      else if lastStageTime stream \<noteq> 0 \<and> now - lastStageTime stream \<ge> STAGE_DURATION
      then (let nextStatus = getNextStatus (status stream)
            in if nextStatus \<noteq> status stream
               then stream\<lparr>status := nextStatus, lastStageTime := now,
                           confirmations := confirmations stream + 1\<rparr>
               else stream)
      else stream)"

text \<open>
  \<^verbatim>\<open>updatedStreams.map((s, i) => s.status === "finalized" ? i : -1).filter(i => i !== -1)\<close>,
  \<^verbatim>\<open>splice(start, 1)\<close> (a negative start counts from the end) and \<^verbatim>\<open>pop()\<close>.
\<close>

definition finalizedIndices :: "StreamPacket list \<Rightarrow> int list" where
  "finalizedIndices updatedStreams =
     filter (\<lambda>i. i \<noteq> - 1)
       (map (\<lambda>(i, s). if status s = Finalized then int i else - 1) (enumerate 0 updatedStreams))"

definition splice1 :: "int \<Rightarrow> 'a list \<Rightarrow> 'a list" where
  "splice1 start xs =
     (let n = (if start < 0 then nat (max (int (length xs) + start) 0) else nat start)
      in take n xs @ drop (Suc n) xs)"

definition evictOverflow :: "StreamPacket list \<Rightarrow> StreamPacket list" where
  "evictOverflow updatedStreams =
     (if length updatedStreams > MAX_STREAMS
      then (if length (finalizedIndices updatedStreams) > 0
            then splice1 (last (finalizedIndices updatedStreams)) updatedStreams
            else butlast updatedStreams)
      else updatedStreams)"

text \<open>The updater of the progression interval: advance, evict on overflow, deduplicate.\<close>

definition progressionUpdater :: "int \<Rightarrow> StreamPacket list \<Rightarrow> StreamPacket list" where
  "progressionUpdater now prevStreams =
     deduplicateStreams (evictOverflow (map (progressStream now) prevStreams))"

section \<open>The hooks as state machines\<close>

text \<open>
  The state a hook holds between callbacks: the packet collection, the connection
  record and the block cursor (\<^verbatim>\<open>lastBlockNumberRef\<close> in the polling-only hook,
  \<^verbatim>\<open>lastProcessedBlock\<close> in the WebSocket hook; \<^verbatim>\<open>0n\<close> means not yet set).
  The statistics record and its counters are display values computed from wall-clock
  readings; no property below reads them and they are left out.
\<close>

datatype ConnectionStatus = Connecting | Connected | Polling | Error | Disconnected

datatype ConnectionMethod = Websocket | Http | NoMethod

record ConnectionInfo =
  conn_status :: ConnectionStatus
  conn_method :: ConnectionMethod
  conn_error :: "string option"
  lastBlockTime :: "int option"
  networkName :: string
  rpcUrl :: string

record Hook =
  streams :: "StreamPacket list"
  connectionInfo :: ConnectionInfo
  lastBlockNumber :: nat

text \<open>
  The state after \<^verbatim>\<open>useState\<close> and the first lines of the effect, before any
  callback has run. The polling-only hook starts with the method \<^verbatim>\<open>"http"\<close>;
  the WebSocket hook starts with \<^verbatim>\<open>"none"\<close> and then runs
  \<^verbatim>\<open>setupWebSocket\<close> or \<^verbatim>\<open>setupPolling\<close>, modelled below as ticks.
\<close>

definition initialHook :: "ConnectionMethod \<Rightarrow> string \<Rightarrow> string \<Rightarrow> Hook" where
  "initialHook method chainName url =
     \<lparr> streams = [],
       connectionInfo =
         \<lparr> conn_status = Connecting, conn_method = method, conn_error = None,
           lastBlockTime = None, networkName = chainName, rpcUrl = url \<rparr>,
       lastBlockNumber = 0 \<rparr>"

text \<open>
  An awaited call of the block source either rejects, and the \<^verbatim>\<open>catch\<close> block reads
  the message of the error, or resolves to a value.
\<close>

datatype 'a Rpc = Throws string | Returns 'a

definition catchError :: "string \<Rightarrow> Hook \<Rightarrow> Hook" where
  "catchError message h =
     h\<lparr>connectionInfo := (connectionInfo h)\<lparr>conn_status := Error, conn_error := Some message\<rparr>\<rparr>"

text \<open>
  \<^verbatim>\<open>fetchAndProcessBlock\<close> of the polling-only hook. \<open>getBlockNumber\<close> and
  \<open>getBlock\<close> are the outcomes of the two awaited calls; the second is consulted
  only where the source makes the call.
\<close>

definition fetchAndProcessBlock ::
  "string \<Rightarrow> int \<Rightarrow> nat Rpc \<Rightarrow> Block Rpc \<Rightarrow> Hook \<Rightarrow> Hook" where
  "fetchAndProcessBlock currencySymbol now getBlockNumber getBlock h =
     (case getBlockNumber of
        Throws message \<Rightarrow> catchError message h
      | Returns latestBlockNumber \<Rightarrow>
          if lastBlockNumber h = 0
          then h\<lparr>lastBlockNumber := latestBlockNumber,
                 connectionInfo :=
                   (connectionInfo h)\<lparr>conn_status := Connected, lastBlockTime := Some now\<rparr>\<rparr>
          else if latestBlockNumber > lastBlockNumber h
          then (case getBlock of
                  Throws message \<Rightarrow> catchError message h
                | Returns block \<Rightarrow>
                    (let txsToShow = take MAX_TX_PER_BLOCK (transactions block);
                         h1 = (if length txsToShow > 0
                               then h\<lparr>streams :=
                                        ingestUpdater
                                          (mapTransactionsPolling currencySymbol now block txsToShow)
                                          (streams h)\<rparr>
                               else h)
                     in h1\<lparr>lastBlockNumber := latestBlockNumber,
                           connectionInfo :=
                             (connectionInfo h1)\<lparr>conn_status := Connected,
                               lastBlockTime := Some now, conn_error := None\<rparr>\<rparr>))
          else h)"

text \<open>
  \<^verbatim>\<open>pollBlocks\<close>, the polling fallback of the WebSocket hook: the connection
  record is written right after the head is read.
\<close>

definition pollBlocks ::
  "string \<Rightarrow> int \<Rightarrow> nat Rpc \<Rightarrow> Block Rpc \<Rightarrow> Hook \<Rightarrow> Hook" where
  "pollBlocks currencySymbol now getBlockNumber getBlock h =
     (case getBlockNumber of
        Throws message \<Rightarrow> catchError message h
      | Returns latestBlockNumber \<Rightarrow>
          (let h0 = h\<lparr>connectionInfo :=
                        (connectionInfo h)\<lparr>conn_status := Polling,
                          lastBlockTime := Some now, conn_error := None\<rparr>\<rparr>
           in if lastBlockNumber h0 = 0
              then h0\<lparr>lastBlockNumber := latestBlockNumber\<rparr>
              else if latestBlockNumber > lastBlockNumber h0
              then (case getBlock of
                      Throws message \<Rightarrow> catchError message h0
                    | Returns block \<Rightarrow>
                        (let txsToShow = take MAX_TX_PER_BLOCK (transactions block);
                             h1 = (if length txsToShow > 0
                                   then h0\<lparr>streams :=
                                             ingestUpdater
                                               (mapTransactions currencySymbol now
                                                  (block_number block) txsToShow)
                                               (streams h0)\<rparr>
                                   else h0)
                         in h1\<lparr>lastBlockNumber := latestBlockNumber\<rparr>))
              else h0))"

text \<open>
  \<^verbatim>\<open>onBlock\<close>, the WebSocket handler: \<open>number\<close> is the number of the
  announced block; a failure of \<^verbatim>\<open>getBlock\<close> is caught and only logged.
\<close>

definition onBlock ::
  "string \<Rightarrow> int \<Rightarrow> nat option \<Rightarrow> Block Rpc \<Rightarrow> Hook \<Rightarrow> Hook" where
  "onBlock currencySymbol now number getBlock h =
     (let h0 = h\<lparr>connectionInfo :=
                    (connectionInfo h)\<lparr>conn_status := Connected,
                      lastBlockTime := Some now, conn_error := None\<rparr>\<rparr>
      in case getBlock of
           Throws message \<Rightarrow> h0
         | Returns fullBlock \<Rightarrow>
             (let txsToShow = take MAX_TX_PER_BLOCK (transactions fullBlock)
              in if length txsToShow = 0 then h0
                 else h0\<lparr>streams :=
                          ingestUpdater (mapTransactions currencySymbol now number txsToShow)
                            (streams h0)\<rparr>))"

text \<open>
  The connection set-up of the WebSocket hook. \<^verbatim>\<open>setupPolling\<close> writes the
  connection record and then starts polling (the polls are ticks of their own);
  \<^verbatim>\<open>setupWebSocket\<close> subscribes with \<^verbatim>\<open>watchBlocks\<close>, whose outcome is the
  argument, and falls back to polling when the call throws; \<^verbatim>\<open>onError\<close> is the
  error handler of the subscription.
\<close>

definition setupPolling :: "Hook \<Rightarrow> Hook" where
  "setupPolling h =
     h\<lparr>connectionInfo := (connectionInfo h)\<lparr>conn_status := Polling, conn_method := Http\<rparr>\<rparr>"

definition setupWebSocket :: "unit Rpc \<Rightarrow> Hook \<Rightarrow> Hook" where
  "setupWebSocket watchBlocks h =
     (let h0 = h\<lparr>connectionInfo :=
                    (connectionInfo h)\<lparr>conn_status := Connecting, conn_method := Websocket\<rparr>\<rparr>
      in case watchBlocks of
           Returns unwatch \<Rightarrow>
             h0\<lparr>connectionInfo := (connectionInfo h0)\<lparr>conn_status := Connected\<rparr>\<rparr>
         | Throws message \<Rightarrow> setupPolling (catchError message h0))"

definition onError :: "string \<Rightarrow> Hook \<Rightarrow> Hook" where
  "onError message h = setupPolling (catchError message h)"

definition progressionInterval :: "int \<Rightarrow> Hook \<Rightarrow> Hook" where
  "progressionInterval now h = h\<lparr>streams := progressionUpdater now (streams h)\<rparr>"

text \<open>
  A tick is one run of one callback or set-up function. JavaScript runs the callbacks on one thread,
  and every write to the collection is a functional updater that React applies to
  the current collection as a whole. The callbacks that await the block source
  suspend only at the awaited calls, whose outcomes are the arguments of the tick;
  the polling-only hook writes its state after them, and the WebSocket handler
  merges into whatever collection is current when its block arrives. A history of
  a hook is therefore a list of ticks. The fields of a transaction have the types
  declared above, so the mapping to packets itself does not throw.
\<close>

datatype Tick =
    FetchAndProcessBlock int "nat Rpc" "Block Rpc"
  | PollBlocks int "nat Rpc" "Block Rpc"
  | OnBlock int "nat option" "Block Rpc"
  | SetupWebSocket "unit Rpc"
  | SetupPolling
  | OnError string
  | ProgressionTick int

fun tick :: "string \<Rightarrow> Tick \<Rightarrow> Hook \<Rightarrow> Hook" where
  "tick symbol (FetchAndProcessBlock now n b) h = fetchAndProcessBlock symbol now n b h"
| "tick symbol (PollBlocks now n b) h = pollBlocks symbol now n b h"
| "tick symbol (OnBlock now n b) h = onBlock symbol now n b h"
| "tick symbol (SetupWebSocket w) h = setupWebSocket w h"
| "tick symbol SetupPolling h = setupPolling h"
| "tick symbol (OnError message) h = onError message h"
| "tick symbol (ProgressionTick now) h = progressionInterval now h"

fun run :: "string \<Rightarrow> Tick list \<Rightarrow> Hook \<Rightarrow> Hook" where
  "run symbol [] h = h"
| "run symbol (t # ts) h = run symbol ts (tick symbol t h)"

text \<open>The states a history passes through, the first and the last included.\<close>

fun trace :: "string \<Rightarrow> Tick list \<Rightarrow> Hook \<Rightarrow> Hook list" where
  "trace symbol [] h = [h]"
| "trace symbol (t # ts) h = h # trace symbol ts (tick symbol t h)"

section \<open>Auxiliary definitions\<close>

text \<open>
  \<open>finalizedIndices\<close> with the numbering started at \<open>n\<close>, for induction over
  the collection, and the number of Finalized packets of a collection.
\<close>

definition indexMarks :: "nat \<Rightarrow> StreamPacket list \<Rightarrow> int list" where
  "indexMarks n xs =
     filter (\<lambda>i. i \<noteq> - 1)
       (map (\<lambda>(i, s). if status s = Finalized then int i else - 1) (enumerate n xs))"

definition finalizedCount :: "StreamPacket list \<Rightarrow> nat" where
  "finalizedCount xs = length (filter (\<lambda>p. status p = Finalized) xs)"

text \<open>The progression callback applied to one packet at each of a list of times in turn.\<close>

fun progressAll :: "int list \<Rightarrow> StreamPacket \<Rightarrow> StreamPacket" where
  "progressAll [] p = p"
| "progressAll (now # nows) p = progressAll nows (progressStream now p)"

section \<open>Example data\<close>

text \<open>Packets, transactions and blocks on which the results below are exercised.\<close>

definition examplePacket :: "string \<Rightarrow> StreamStatus \<Rightarrow> int \<Rightarrow> StreamPacket" where
  "examplePacket i s t =
     \<lparr> id' = i, status = s, timestamp = t, eventType = ''Transaction'', source = ''0x0'',
       data = [], confirmations = int (statusOrder s), hash = i, lastStageTime = t,
       blockNumber = 1 \<rparr>"

definition exampleTx :: "string \<Rightarrow> nat \<Rightarrow> Transaction" where
  "exampleTx h v =
     \<lparr> tx_hash = Some h, tx_from = Some ''0xf0'', tx_to = Some ''0xbeef'',
       tx_value = Some v, tx_gas = Some 21000 \<rparr>"

definition exampleBlock :: "nat \<Rightarrow> Transaction list \<Rightarrow> Block" where
  "exampleBlock n txs = \<lparr> block_hash = Some ''0xb10c'', block_number = Some n, transactions = txs \<rparr>"

definition packetA :: StreamPacket where
  "packetA = examplePacket ''0xaa'' Streamed 1000"

definition packetB :: StreamPacket where
  "packetB = examplePacket ''0xbb'' Indexed 1000"

definition packetA2 :: StreamPacket where
  "packetA2 = examplePacket ''0xaa'' Consolidated 2000"

definition packetB2 :: StreamPacket where
  "packetB2 = examplePacket ''0xbb'' Indexed 3000"

definition exampleInitial :: Hook where
  "exampleInitial = initialHook Http ''Somnia Testnet (Shannon)'' ''https://dream-rpc.somnia.network''"

definition exampleBlock101 :: Block where
  "exampleBlock101 = exampleBlock 101 [exampleTx ''0xAA'' 20000000000000000]"

definition exampleHistory :: "Tick list" where
  "exampleHistory =
     [FetchAndProcessBlock 1000 (Returns 100) (Throws ''not called''),
      FetchAndProcessBlock 4000 (Returns 101) (Returns exampleBlock101)]"

definition exampleStreamed :: StreamPacket where
  "exampleStreamed =
     txToPacketPolling ''STT'' 4000 exampleBlock101 0 (exampleTx ''0xAA'' 20000000000000000)"

definition packetZero :: StreamPacket where
  "packetZero = examplePacket ''0xaa'' Streamed 0"

definition packetF :: StreamPacket where
  "packetF = examplePacket ''0xff'' Finalized 1000"

definition outageHistory :: "Tick list" where
  "outageHistory =
     [FetchAndProcessBlock 1000 (Returns 100) (Throws ''not called''),
      FetchAndProcessBlock 4000 (Throws ''network error'') (Throws ''not called''),
      FetchAndProcessBlock 7000 (Returns 100) (Throws ''not called'')]"

definition outageHistoryFallback :: "Tick list" where
  "outageHistoryFallback =
     [PollBlocks 1000 (Returns 100) (Throws ''not called''),
      PollBlocks 4000 (Throws ''network error'') (Throws ''not called''),
      PollBlocks 7000 (Returns 100) (Throws ''not called'')]"

definition contractCreationTx :: Transaction where
  "contractCreationTx =
     \<lparr> tx_hash = Some ''0xcc'', tx_from = Some ''0xf0'', tx_to = None,
       tx_value = None, tx_gas = Some 53000 \<rparr>"

text \<open>
  Collections above the capacity: \<open>s\<close> Streamed packets in front (the newest, as
  ingestion puts new packets in front) followed by \<open>f\<close> Finalized ones, with
  pairwise different ids and timestamps that fall along the list.
\<close>

definition exampleId :: "nat \<Rightarrow> string" where
  "exampleId n = ''0x'' @ replicate n CHR ''a''"

definition exampleStreamedAt :: "nat \<Rightarrow> StreamPacket" where
  "exampleStreamedAt n = examplePacket (exampleId n) Streamed (5000 - int n)"

definition exampleFinalizedAt :: "nat \<Rightarrow> StreamPacket" where
  "exampleFinalizedAt n = examplePacket (exampleId n) Finalized (5000 - int n)"

definition exampleCollection :: "nat \<Rightarrow> nat \<Rightarrow> StreamPacket list" where
  "exampleCollection s f = map exampleStreamedAt [0..<s] @ map exampleFinalizedAt [s..<s + f]"

definition evictionExample :: "StreamPacket list" where
  "evictionExample = exampleCollection 50 51"

definition scenario4 :: "StreamPacket list" where
  "scenario4 = exampleCollection 95 10"

text \<open>
  A history in which a packet lives through all four stages, is pushed out of the
  collection by two full blocks, and whose transaction is then fetched once more.
\<close>

definition exampleTxAt :: "nat \<Rightarrow> Transaction" where
  "exampleTxAt n = exampleTx (exampleId n) 0"

definition exampleBlockOf :: "nat \<Rightarrow> nat \<Rightarrow> nat \<Rightarrow> Block" where
  "exampleBlockOf num m k = exampleBlock num (map exampleTxAt [m..<m + k])"

definition exampleSingleBlock :: "nat \<Rightarrow> nat \<Rightarrow> Block" where
  "exampleSingleBlock num n = exampleBlock num [exampleTxAt n]"

definition freshPackets :: "int \<Rightarrow> nat \<Rightarrow> nat \<Rightarrow> nat \<Rightarrow> StreamPacket list" where
  "freshPackets now num m k =
     mapTransactionsPolling ''STT'' now (exampleBlockOf num m k) (map exampleTxAt [m..<m + k])"

definition evictedPacket :: StreamPacket where
  "evictedPacket =
     progressAll [4400, 4800, 5200]
       (txToPacketPolling ''STT'' 4000 (exampleSingleBlock 101 0) 0 (exampleTxAt 0))"

definition reingestedPacket :: StreamPacket where
  "reingestedPacket = txToPacketPolling ''STT'' 13000 (exampleSingleBlock 104 0) 0 (exampleTxAt 0)"

definition lifeHistory :: "Tick list" where
  "lifeHistory =
     [FetchAndProcessBlock 1000 (Returns 100) (Throws ''not called''),
      FetchAndProcessBlock 4000 (Returns 101) (Returns (exampleSingleBlock 101 0)),
      ProgressionTick 4400, ProgressionTick 4800, ProgressionTick 5200]"

definition reingestHistory :: "Tick list" where
  "reingestHistory =
     [FetchAndProcessBlock 7000 (Returns 102) (Returns (exampleBlockOf 102 2 50)),
      FetchAndProcessBlock 10000 (Returns 103) (Returns (exampleBlockOf 103 52 50)),
      FetchAndProcessBlock 13000 (Returns 104) (Returns (exampleSingleBlock 104 0))]"

section \<open>Facts about the deduplication pass\<close>

lemma update_fresh_key:
  "k \<notin> fst ` set al \<Longrightarrow> AList.update k v al = al @ [(k, v)]"
  by (induction al) auto

lemma map_of_None_iff_fresh: "map_of al k = None \<longleftrightarrow> k \<notin> fst ` set al"
  by (simp add: map_of_eq_None_iff)

lemma foldl_dedupStep_distinct:
  "distinct (map id' xs) \<Longrightarrow> id' ` set xs \<inter> fst ` set seen = {} \<Longrightarrow>
   foldl dedupStep seen xs = seen @ map (\<lambda>p. (id' p, p)) xs"
proof (induction xs arbitrary: seen)
  case Nil
  show ?case by simp
next
  case (Cons p ps)
  from Cons.prems have fresh: "id' p \<notin> fst ` set seen"
    by auto
  then have step: "dedupStep seen p = seen @ [(id' p, p)]"
    by (simp add: dedupStep_def map_of_None_iff_fresh [THEN iffD2] update_fresh_key)
  from Cons.prems have "distinct (map id' ps)"
    and "id' ` set ps \<inter> fst ` set (seen @ [(id' p, p)]) = {}"
    by auto
  then have "foldl dedupStep (seen @ [(id' p, p)]) ps
             = (seen @ [(id' p, p)]) @ map (\<lambda>p. (id' p, p)) ps"
    by (rule Cons.IH)
  with step show ?case by simp
qed

lemma keptFirstBest_max:
  "keptFirstBest xs r \<Longrightarrow> q \<in> set xs \<Longrightarrow> id' q = id' r \<Longrightarrow>
   statusOrder (status q) \<le> statusOrder (status r)"
  unfolding keptFirstBest_def by (auto simp: less_imp_le)

lemma keptFirstBest_snoc_keep:
  assumes "keptFirstBest xs r"
    and "id' x \<noteq> id' r \<or> statusOrder (status x) \<le> statusOrder (status r)"
  shows "keptFirstBest (xs @ [x]) r"
proof -
  from assms(1) obtain ys zs where s: "xs = ys @ r # zs"
    and lo: "\<forall>q\<in>set ys. id' q = id' r \<longrightarrow> statusOrder (status q) < statusOrder (status r)"
    and hi: "\<forall>q\<in>set zs. id' q = id' r \<longrightarrow> statusOrder (status q) \<le> statusOrder (status r)"
    unfolding keptFirstBest_def by blast
  from s have "xs @ [x] = ys @ r # (zs @ [x])" by simp
  moreover from hi assms(2)
  have "\<forall>q\<in>set (zs @ [x]). id' q = id' r \<longrightarrow> statusOrder (status q) \<le> statusOrder (status r)"
    by auto
  ultimately show ?thesis
    unfolding keptFirstBest_def using lo by blast
qed

lemma keptFirstBest_snoc_new:
  assumes "\<forall>q\<in>set xs. id' q = id' x \<longrightarrow> statusOrder (status q) < statusOrder (status x)"
  shows "keptFirstBest (xs @ [x]) x"
  unfolding keptFirstBest_def
  using assms by (intro exI [of _ xs] exI [of _ "[]"]) simp

lemma map_of_dedupStep:
  "map_of (dedupStep seen x) =
     (case map_of seen (id' x) of
        None \<Rightarrow> (map_of seen)(id' x \<mapsto> x)
      | Some e \<Rightarrow> if statusOrder (status x) > statusOrder (status e)
                  then (map_of seen)(id' x \<mapsto> x) else map_of seen)"
  by (simp add: dedupStep_def AList.update_conv' split: option.split)

lemma distinct_dedupStep:
  "distinct (map fst seen) \<Longrightarrow> distinct (map fst (dedupStep seen x))"
  by (simp add: dedupStep_def AList.distinct_update split: option.split)

lemma keys_dedupStep: "fst ` set (dedupStep seen x) = insert (id' x) (fst ` set seen)"
  by (auto simp: dedupStep_def AList.dom_update map_of_eq_None_iff
      split: option.splits dest: map_of_SomeD intro: rev_image_eqI)

lemma length_dedupStep: "length (dedupStep seen x) \<le> Suc (length seen)"
proof -
  have "length (AList.update (id' x) x seen) \<le> Suc (length seen)"
    by (induction seen) auto
  then show ?thesis
    by (simp add: dedupStep_def split: option.split)
qed

lemma distinct_foldl_dedupStep: "distinct (map fst (foldl dedupStep [] xs))"
  by (induction xs rule: rev_induct) (simp_all add: distinct_dedupStep)

lemma keys_foldl_dedupStep: "fst ` set (foldl dedupStep [] xs) = id' ` set xs"
  by (induction xs rule: rev_induct) (auto simp: keys_dedupStep)

lemma length_foldl_dedupStep: "length (foldl dedupStep [] xs) \<le> length xs"
proof (induction xs rule: rev_induct)
  case Nil
  show ?case by simp
next
  case (snoc x xs)
  have "length (foldl dedupStep [] (xs @ [x])) \<le> Suc (length (foldl dedupStep [] xs))"
    by (simp add: length_dedupStep)
  with snoc show ?case by simp
qed

lemma kept_foldl_dedupStep:
  "map_of (foldl dedupStep [] xs) k = Some r \<Longrightarrow> id' r = k \<and> keptFirstBest xs r"
proof (induction xs arbitrary: k r rule: rev_induct)
  case Nil
  then show ?case by simp
next
  case (snoc x xs)
  let ?M = "foldl dedupStep [] xs"
  from snoc.prems have look: "map_of (dedupStep ?M x) k = Some r"
    by simp
  have keys: "map_of ?M (id' x) = None \<Longrightarrow> \<forall>q\<in>set xs. id' q \<noteq> id' x"
  proof -
    assume "map_of ?M (id' x) = None"
    then have "id' x \<notin> fst ` set ?M"
      by (simp add: map_of_eq_None_iff)
    then have "id' x \<notin> id' ` set xs"
      by (simp add: keys_foldl_dedupStep)
    then show "\<forall>q\<in>set xs. id' q \<noteq> id' x"
      unfolding image_iff by metis
  qed
  show ?case
  proof (cases "map_of ?M (id' x)")
    case None
    show ?thesis
    proof (cases "k = id' x")
      case True
      with look None have "r = x"
        by (simp add: map_of_dedupStep)
      with True keys [OF None] show ?thesis
        by (simp add: keptFirstBest_snoc_new)
    next
      case False
      with look None have old: "map_of ?M k = Some r"
        by (simp add: map_of_dedupStep)
      then have "id' r = k" and "keptFirstBest xs r"
        using snoc.IH by blast+
      with False show ?thesis
        by (auto intro: keptFirstBest_snoc_keep)
    qed
  next
    case (Some e)
    then have e: "id' e = id' x" "keptFirstBest xs e"
      using snoc.IH by blast+
    show ?thesis
    proof (cases "statusOrder (status x) > statusOrder (status e)")
      case True
      show ?thesis
      proof (cases "k = id' x")
        case k: True
        with look Some True have "r = x"
          by (simp add: map_of_dedupStep)
        moreover have "\<forall>q\<in>set xs. id' q = id' x \<longrightarrow> statusOrder (status q) < statusOrder (status x)"
          using keptFirstBest_max [OF e(2)] e(1) True by fastforce
        ultimately show ?thesis
          using k by (simp add: keptFirstBest_snoc_new)
      next
        case False
        with look Some True have old: "map_of ?M k = Some r"
          by (simp add: map_of_dedupStep)
        then have "id' r = k" and "keptFirstBest xs r"
          using snoc.IH by blast+
        with False show ?thesis
          by (auto intro: keptFirstBest_snoc_keep)
      qed
    next
      case False
      with look Some have old: "map_of ?M k = Some r"
        by (simp add: map_of_dedupStep)
      then have r: "id' r = k" "keptFirstBest xs r"
        using snoc.IH by blast+
      have "id' x \<noteq> id' r \<or> statusOrder (status x) \<le> statusOrder (status r)"
      proof (cases "id' x = id' r")
        case same: True
        with r(1) old Some have "r = e" by simp
        with False show ?thesis by simp
      next
        case False
        then show ?thesis by simp
      qed
      with r show ?thesis
        by (auto intro: keptFirstBest_snoc_keep)
    qed
  qed
qed

lemma deduplicateStreams_kept:
  assumes "r \<in> set (deduplicateStreams xs)"
  shows "keptFirstBest xs r"
proof -
  from assms obtain k where "(k, r) \<in> set (foldl dedupStep [] xs)"
    by (auto simp: deduplicateStreams_def)
  then have "map_of (foldl dedupStep [] xs) k = Some r"
    by (simp add: distinct_foldl_dedupStep)
  then show ?thesis
    by (simp add: kept_foldl_dedupStep)
qed

lemma ids_deduplicateStreams: "map id' (deduplicateStreams xs) = map fst (foldl dedupStep [] xs)"
proof -
  have "\<forall>(k, r)\<in>set (foldl dedupStep [] xs). id' r = k"
  proof clarify
    fix k r assume "(k, r) \<in> set (foldl dedupStep [] xs)"
    then have "map_of (foldl dedupStep [] xs) k = Some r"
      by (simp add: distinct_foldl_dedupStep)
    then show "id' r = k" by (simp add: kept_foldl_dedupStep)
  qed
  then show ?thesis
    by (auto simp: deduplicateStreams_def)
qed

lemma distinct_deduplicateStreams: "distinct (map id' (deduplicateStreams xs))"
  by (simp add: ids_deduplicateStreams distinct_foldl_dedupStep)

lemma set_ids_deduplicateStreams: "id' ` set (deduplicateStreams xs) = id' ` set xs"
proof -
  have "id' ` set (deduplicateStreams xs) = set (map id' (deduplicateStreams xs))"
    by simp
  also have "\<dots> = fst ` set (foldl dedupStep [] xs)"
    by (simp only: ids_deduplicateStreams set_map)
  finally show ?thesis
    by (simp add: keys_foldl_dedupStep)
qed

lemma length_deduplicateStreams: "length (deduplicateStreams xs) \<le> length xs"
  by (simp add: deduplicateStreams_def length_foldl_dedupStep)

lemma set_deduplicateStreams: "set (deduplicateStreams xs) \<subseteq> set xs"
proof
  fix r assume "r \<in> set (deduplicateStreams xs)"
  then have "keptFirstBest xs r" by (rule deduplicateStreams_kept)
  then show "r \<in> set xs" unfolding keptFirstBest_def by auto
qed

lemma deduplicateStreams_distinct_ids:
  "distinct (map id' xs) \<Longrightarrow> deduplicateStreams xs = xs"
  by (simp add: deduplicateStreams_def foldl_dedupStep_distinct comp_def)

section \<open>Facts about progression and eviction\<close>

lemma progressStream_id [simp]: "id' (progressStream now p) = id' p"
  by (simp add: progressStream_def Let_def)

lemma progressStream_timestamp [simp]: "timestamp (progressStream now p) = timestamp p"
  by (simp add: progressStream_def Let_def)

lemma statusOrder_getNextStatus: "statusOrder s \<le> statusOrder (getNextStatus s)"
  by (cases s) simp_all

lemma getNextStatus_changes: "s \<noteq> Finalized \<Longrightarrow> getNextStatus s \<noteq> s"
  by (cases s) simp_all

lemma progressStream_status_mono:
  "statusOrder (status p) \<le> statusOrder (status (progressStream now p))"
  by (simp add: progressStream_def Let_def statusOrder_getNextStatus)

lemma progressStream_Finalized:
  "status p = Finalized \<Longrightarrow> status (progressStream now p) = Finalized"
  by (simp add: progressStream_def)

lemma map_progressStream_ids [simp]: "map id' (map (progressStream now) xs) = map id' xs"
  by (simp add: comp_def)

lemma indexMarks_append: "indexMarks n (xs @ ys) = indexMarks n xs @ indexMarks (n + length xs) ys"
  by (simp add: indexMarks_def enumerate_append_eq)

lemma indexMarks_none: "\<forall>q\<in>set xs. status q \<noteq> Finalized \<Longrightarrow> indexMarks n xs = []"
  by (induction xs arbitrary: n) (simp_all add: indexMarks_def)

lemma indexMarks_Cons_Finalized:
  "status r = Finalized \<Longrightarrow> indexMarks n (r # zs) = int n # indexMarks (Suc n) zs"
  by (simp add: indexMarks_def)

lemma finalizedIndices_indexMarks: "finalizedIndices xs = indexMarks 0 xs"
  by (simp add: finalizedIndices_def indexMarks_def)

lemma finalizedIndices_last:
  assumes "status r = Finalized" and "\<forall>q\<in>set zs. status q \<noteq> Finalized"
  shows "finalizedIndices (ys @ r # zs) \<noteq> []"
    and "last (finalizedIndices (ys @ r # zs)) = int (length ys)"
  using assms
  by (simp_all add: finalizedIndices_indexMarks indexMarks_append indexMarks_Cons_Finalized
      indexMarks_none)

lemma finalizedIndices_none:
  "\<forall>q\<in>set xs. status q \<noteq> Finalized \<Longrightarrow> finalizedIndices xs = []"
  by (simp add: finalizedIndices_indexMarks indexMarks_none)

lemma splice1_at: "splice1 (int (length ys)) (ys @ r # zs) = ys @ zs"
  by (simp add: splice1_def)

lemma evictOverflow_within: "length ms \<le> MAX_STREAMS \<Longrightarrow> evictOverflow ms = ms"
  by (simp add: evictOverflow_def)

lemma evictOverflow_Finalized:
  assumes "length (ys @ r # zs) > MAX_STREAMS"
    and "status r = Finalized" and "\<forall>q\<in>set zs. status q \<noteq> Finalized"
  shows "evictOverflow (ys @ r # zs) = ys @ zs"
  using assms finalizedIndices_last [OF assms(2,3), of ys]
  by (simp add: evictOverflow_def splice1_at del: append.simps length_append)

lemma evictOverflow_no_Finalized:
  assumes "length ms > MAX_STREAMS" and "\<forall>q\<in>set ms. status q \<noteq> Finalized"
  shows "evictOverflow ms = butlast ms"
  using assms by (simp add: evictOverflow_def finalizedIndices_none)

lemma evictOverflow_cases:
  assumes "length ms > MAX_STREAMS"
  shows "(\<exists>ys r zs. ms = ys @ r # zs \<and> status r = Finalized
            \<and> (\<forall>q\<in>set zs. status q \<noteq> Finalized) \<and> evictOverflow ms = ys @ zs)
       \<or> ((\<forall>q\<in>set ms. status q \<noteq> Finalized) \<and> evictOverflow ms = butlast ms)"
proof (cases "\<exists>q\<in>set ms. status q = Finalized")
  case True
  then obtain ys r zs where s: "ms = ys @ r # zs" "status r = Finalized"
    "\<forall>q\<in>set zs. status q \<noteq> Finalized"
    using split_list_last_prop [of ms "\<lambda>q. status q = Finalized"] by blast
  with assms have "evictOverflow ms = ys @ zs"
    using evictOverflow_Finalized [of ys r zs] by simp
  with s show ?thesis by blast
next
  case False
  with assms show ?thesis
    by (simp add: evictOverflow_no_Finalized)
qed

section \<open>Facts about the two updaters\<close>

lemma distinct_remove_index:
  assumes "distinct (map f xs)"
  shows "distinct (map f (take n xs @ drop (Suc n) xs))"
proof -
  have "distinct (take n (map f xs) @ drop (Suc n) (map f xs))"
    using assms by (simp add: set_take_disj_set_drop_if_distinct)
  then show ?thesis
    by (simp add: take_map drop_map)
qed

lemma evictOverflow_subset: "set (evictOverflow ms) \<subseteq> set ms"
proof (cases "length ms > MAX_STREAMS")
  case True
  from evictOverflow_cases [OF True] show ?thesis
    by (auto dest: in_set_butlastD)
next
  case False
  then show ?thesis by (simp add: evictOverflow_within)
qed

lemma evictOverflow_length:
  "length ms > MAX_STREAMS \<Longrightarrow> length (evictOverflow ms) = length ms - 1"
  using evictOverflow_cases [of ms] by auto

lemma evictOverflow_distinct:
  assumes "distinct (map id' ms)"
  shows "distinct (map id' (evictOverflow ms))"
proof (cases "length ms > MAX_STREAMS")
  case True
  from evictOverflow_cases [OF True] assms show ?thesis
    by (auto simp: map_butlast distinct_butlast)
next
  case False
  with assms show ?thesis by (simp add: evictOverflow_within)
qed

lemma progressionUpdater_distinct: "distinct (map id' (progressionUpdater now prev))"
  by (simp add: progressionUpdater_def distinct_deduplicateStreams)

lemma progressionUpdater_length:
  "length prev \<le> MAX_STREAMS \<Longrightarrow> length (progressionUpdater now prev) \<le> MAX_STREAMS"
  using length_deduplicateStreams [of "map (progressStream now) prev"]
  by (simp add: progressionUpdater_def evictOverflow_within)

lemma progressionUpdater_subset:
  "set (progressionUpdater now prev) \<subseteq> progressStream now ` set prev"
  using set_deduplicateStreams [of "evictOverflow (map (progressStream now) prev)"]
    evictOverflow_subset [of "map (progressStream now) prev"]
  by (auto simp: progressionUpdater_def)

lemma progressionUpdater_eq:
  assumes "distinct (map id' prev)"
  shows "progressionUpdater now prev = evictOverflow (map (progressStream now) prev)"
proof -
  have "distinct (map id' (map (progressStream now) prev))"
    using assms by (simp only: map_progressStream_ids)
  then have "distinct (map id' (evictOverflow (map (progressStream now) prev)))"
    by (rule evictOverflow_distinct)
  then show ?thesis
    unfolding progressionUpdater_def by (rule deduplicateStreams_distinct_ids)
qed

lemma same_id_same_packet:
  "distinct (map id' xs) \<Longrightarrow> p \<in> set xs \<Longrightarrow> q \<in> set xs \<Longrightarrow> id' p = id' q \<Longrightarrow> p = q"
  by (meson distinct_map inj_onD)

lemma progressionUpdater_packet:
  assumes "distinct (map id' prev)" and "p \<in> set prev"
    and "q \<in> set (progressionUpdater now prev)" and "id' q = id' p"
  shows "q = progressStream now p"
proof -
  from assms(3) obtain p' where p': "p' \<in> set prev" "q = progressStream now p'"
    using progressionUpdater_subset [of now prev] by blast
  with assms(4) have "id' p' = id' p" by simp
  with assms(1) p'(1) assms(2) have "p' = p" by (rule same_id_same_packet)
  with p'(2) show ?thesis by simp
qed

lemma ingestUpdater_noop:
  "\<forall>s\<in>set newStreams. id' s \<in> id' ` set prev \<Longrightarrow> ingestUpdater newStreams prev = prev"
  by (simp add: ingestUpdater_def filter_empty_conv)

lemma ingestUpdater_length:
  "length prev \<le> MAX_STREAMS \<Longrightarrow> length (ingestUpdater newStreams prev) \<le> MAX_STREAMS"
  by (simp add: ingestUpdater_def Let_def)

lemma ingestUpdater_distinct:
  assumes "distinct (map id' prev)"
  shows "distinct (map id' (ingestUpdater newStreams prev))"
proof -
  have "distinct (take n (map id' (deduplicateStreams xs)))" for n xs
    by (simp add: distinct_deduplicateStreams)
  then show ?thesis
    using assms by (simp add: ingestUpdater_def Let_def take_map)
qed

lemma ingestUpdater_packet:
  assumes "distinct (map id' prev)" and "p \<in> set prev"
    and "q \<in> set (ingestUpdater newStreams prev)" and "id' q = id' p"
  shows "q = p"
proof -
  let ?new = "filter (\<lambda>s. id' s \<notin> set (map id' prev)) newStreams"
  have "q \<in> set ?new \<union> set prev"
  proof (cases "length ?new > 0")
    case True
    then have "ingestUpdater newStreams prev = take MAX_STREAMS (deduplicateStreams (?new @ prev))"
      by (simp add: ingestUpdater_def Let_def)
    with assms(3) have "q \<in> set (deduplicateStreams (?new @ prev))"
      by (auto dest: in_set_takeD)
    then show ?thesis
      using set_deduplicateStreams [of "?new @ prev"] by auto
  next
    case False
    then have "ingestUpdater newStreams prev = prev"
      by (simp add: ingestUpdater_def Let_def)
    with assms(3) show ?thesis by simp
  qed
  moreover have "q \<notin> set ?new"
    using assms(2,4) by auto
  ultimately have "q \<in> set prev" by blast
  with assms(1) show ?thesis
    using assms(2,4) by (rule same_id_same_packet)
qed

section \<open>Invariants of the hooks\<close>

lemma ingestUpdater_Nil [simp]: "ingestUpdater [] prev = prev"
  by (simp add: ingestUpdater_def)

lemma tick_streams:
  "(\<exists>ns. streams (tick symbol t h) = ingestUpdater ns (streams h))
   \<or> (\<exists>now. streams (tick symbol t h) = progressionUpdater now (streams h))"
proof (cases t)
  case (FetchAndProcessBlock now n b)
  have "\<exists>ns. streams (fetchAndProcessBlock symbol now n b h) = ingestUpdater ns (streams h)"
    unfolding fetchAndProcessBlock_def catchError_def Let_def
    by (auto split: Rpc.split intro: exI [of _ "[]"])
  with FetchAndProcessBlock show ?thesis by simp
next
  case (PollBlocks now n b)
  have "\<exists>ns. streams (pollBlocks symbol now n b h) = ingestUpdater ns (streams h)"
    unfolding pollBlocks_def catchError_def Let_def
    by (auto split: Rpc.split intro: exI [of _ "[]"])
  with PollBlocks show ?thesis by simp
next
  case (OnBlock now n b)
  have "\<exists>ns. streams (onBlock symbol now n b h) = ingestUpdater ns (streams h)"
    unfolding onBlock_def Let_def
    by (auto split: Rpc.split intro: exI [of _ "[]"])
  with OnBlock show ?thesis by simp
next
  case (SetupWebSocket w)
  have "\<exists>ns. streams (setupWebSocket w h) = ingestUpdater ns (streams h)"
    unfolding setupWebSocket_def setupPolling_def catchError_def Let_def
    by (auto split: Rpc.split intro: exI [of _ "[]"])
  with SetupWebSocket show ?thesis by simp
next
  case SetupPolling
  have "\<exists>ns. streams (setupPolling h) = ingestUpdater ns (streams h)"
    unfolding setupPolling_def by (auto intro: exI [of _ "[]"])
  with SetupPolling show ?thesis by simp
next
  case (OnError message)
  have "\<exists>ns. streams (onError message h) = ingestUpdater ns (streams h)"
    unfolding onError_def setupPolling_def catchError_def by (auto intro: exI [of _ "[]"])
  with OnError show ?thesis by simp
next
  case (ProgressionTick now)
  then show ?thesis by (auto simp: progressionInterval_def)
qed

lemma tick_length:
  "length (streams h) \<le> MAX_STREAMS \<Longrightarrow> length (streams (tick symbol t h)) \<le> MAX_STREAMS"
  using tick_streams [of symbol t h]
  by (auto simp: ingestUpdater_length progressionUpdater_length)

lemma tick_distinct:
  "distinct (map id' (streams h)) \<Longrightarrow> distinct (map id' (streams (tick symbol t h)))"
  using tick_streams [of symbol t h]
  by (auto simp: ingestUpdater_distinct progressionUpdater_distinct)

lemma tick_status:
  assumes "distinct (map id' (streams h))" and "p \<in> set (streams h)"
    and "q \<in> set (streams (tick symbol t h))" and "id' q = id' p"
  shows "statusOrder (status p) \<le> statusOrder (status q)
         \<and> (status p = Finalized \<longrightarrow> status q = Finalized)"
proof -
  from tick_streams [of symbol t h] consider
    ns where "streams (tick symbol t h) = ingestUpdater ns (streams h)"
    | now where "streams (tick symbol t h) = progressionUpdater now (streams h)"
    by blast
  then show ?thesis
  proof cases
    case 1
    with assms have "q = p" by (simp add: ingestUpdater_packet)
    then show ?thesis by simp
  next
    case 2
    with assms have "q = progressStream now p" by (simp add: progressionUpdater_packet)
    then show ?thesis
      by (simp add: progressStream_status_mono progressStream_Finalized)
  qed
qed

lemma run_length:
  "length (streams h) \<le> MAX_STREAMS \<Longrightarrow> length (streams (run symbol ts h)) \<le> MAX_STREAMS"
  by (induction ts arbitrary: h) (simp_all add: tick_length)

lemma run_distinct:
  "distinct (map id' (streams h)) \<Longrightarrow> distinct (map id' (streams (run symbol ts h)))"
  by (induction ts arbitrary: h) (simp_all add: tick_distinct)

lemma run_status:
  assumes "distinct (map id' (streams h))" and "p \<in> set (streams h)"
    and "q \<in> set (streams (run symbol ts h))" and "id' q = id' p"
    and "\<forall>h'\<in>set (trace symbol ts h). id' p \<in> id' ` set (streams h')"
  shows "statusOrder (status p) \<le> statusOrder (status q)
         \<and> (status p = Finalized \<longrightarrow> status q = Finalized)"
  using assms
proof (induction ts arbitrary: h p)
  case Nil
  then have "q = p" by (simp add: same_id_same_packet)
  then show ?case by simp
next
  case (Cons t ts)
  let ?h = "tick symbol t h"
  from Cons.prems(5) have live: "\<forall>h'\<in>set (trace symbol ts ?h). id' p \<in> id' ` set (streams h')"
    by simp
  have "?h \<in> set (trace symbol ts ?h)"
    by (cases ts) simp_all
  with live obtain p' where p': "p' \<in> set (streams ?h)" "id' p' = id' p"
    by (metis imageE)
  have step: "statusOrder (status p) \<le> statusOrder (status p')
              \<and> (status p = Finalized \<longrightarrow> status p' = Finalized)"
    using Cons.prems(1,2) p' by (rule tick_status)
  have "statusOrder (status p') \<le> statusOrder (status q)
        \<and> (status p' = Finalized \<longrightarrow> status q = Finalized)"
  proof (rule Cons.IH)
    show "distinct (map id' (streams ?h))"
      using Cons.prems(1) by (rule tick_distinct)
    show "p' \<in> set (streams ?h)" by (rule p'(1))
    show "q \<in> set (streams (run symbol ts ?h))"
      using Cons.prems(3) by simp
    show "id' q = id' p'" using Cons.prems(4) p'(2) by simp
    show "\<forall>h'\<in>set (trace symbol ts ?h). id' p' \<in> id' ` set (streams h')"
      using live p'(2) by simp
  qed
  with step show ?case by auto
qed

section \<open>Facts about overflow and the example collections\<close>

lemma progressionUpdater_overflow:
  assumes "length prev > MAX_STREAMS" and "distinct (map id' prev)"
  shows "(\<exists>ys r zs. map (progressStream now) prev = ys @ r # zs \<and> status r = Finalized
            \<and> (\<forall>q\<in>set zs. status q \<noteq> Finalized) \<and> progressionUpdater now prev = ys @ zs)
       \<or> ((\<forall>q\<in>set (map (progressStream now) prev). status q \<noteq> Finalized)
            \<and> progressionUpdater now prev = butlast (map (progressStream now) prev))"
proof -
  have "length (map (progressStream now) prev) > MAX_STREAMS"
    using assms(1) by simp
  from evictOverflow_cases [OF this] show ?thesis
    by (simp only: progressionUpdater_eq [OF assms(2)])
qed

lemma progressionUpdater_overflow_length:
  assumes "length prev > MAX_STREAMS" and "distinct (map id' prev)"
  shows "length (progressionUpdater now prev) = length prev - 1"
  using assms by (simp add: progressionUpdater_eq evictOverflow_length)

lemma evicted_is_oldest:
  assumes "sorted_wrt (\<lambda>a b. timestamp a \<ge> timestamp b) prev"
    and "map (progressStream now) prev = ys @ r # zs"
    and "\<forall>q\<in>set zs. status q \<noteq> Finalized"
    and "q \<in> set (map (progressStream now) prev)" and "status q = Finalized"
  shows "timestamp r \<le> timestamp q"
proof -
  have "sorted_wrt (\<lambda>a b. timestamp a \<ge> timestamp b) (map (progressStream now) prev)"
    using assms(1) by (simp add: sorted_wrt_map)
  then have before: "\<forall>x\<in>set ys. timestamp r \<le> timestamp x"
    by (simp add: assms(2) sorted_wrt_append)
  from assms(2,3,4,5) have "q \<in> set ys \<or> q = r"
    by auto
  with before show ?thesis by auto
qed

lemma exampleId_eq [simp]: "exampleId m = exampleId n \<longleftrightarrow> m = n"
  by (simp add: exampleId_def)

lemma example_ids [simp]:
  "id' (exampleStreamedAt n) = exampleId n" "id' (exampleFinalizedAt n) = exampleId n"
  by (simp_all add: exampleStreamedAt_def exampleFinalizedAt_def examplePacket_def)

lemma example_statuses [simp]:
  "status (exampleStreamedAt n) = Streamed" "status (exampleFinalizedAt n) = Finalized"
  by (simp_all add: exampleStreamedAt_def exampleFinalizedAt_def examplePacket_def)

lemma example_timestamps [simp]:
  "timestamp (exampleStreamedAt n) = 5000 - int n" "timestamp (exampleFinalizedAt n) = 5000 - int n"
  by (simp_all add: exampleStreamedAt_def exampleFinalizedAt_def examplePacket_def)

lemma example_progress [simp]:
  "progressStream 5000 (exampleFinalizedAt n) = exampleFinalizedAt n"
  "n < 300 \<Longrightarrow> progressStream 5000 (exampleStreamedAt n) = exampleStreamedAt n"
  by (simp_all add: progressStream_def exampleStreamedAt_def exampleFinalizedAt_def
      examplePacket_def STAGE_DURATION_def)

lemma exampleCollection_length [simp]: "length (exampleCollection s f) = s + f"
  by (simp add: exampleCollection_def)

lemma exampleCollection_ids: "map id' (exampleCollection s f) = map exampleId [0..<s + f]"
proof -
  have "map id' (exampleCollection s f) = map exampleId ([0..<s] @ [s..<s + f])"
    by (simp add: exampleCollection_def comp_def)
  also have "[0..<s] @ [s..<s + f] = [0..<s + f]"
    using upt_add_eq_append [of 0 s f] by simp
  finally show ?thesis .
qed

lemma exampleCollection_distinct: "distinct (map id' (exampleCollection s f))"
  by (simp add: exampleCollection_ids distinct_map inj_on_def)

lemma exampleCollection_finalizedCount: "finalizedCount (exampleCollection s f) = f"
  by (simp add: finalizedCount_def exampleCollection_def filter_map comp_def)

lemma exampleCollection_progress:
  "s \<le> 300 \<Longrightarrow> map (progressStream 5000) (exampleCollection s f) = exampleCollection s f"
  by (rule map_idI) (auto simp: exampleCollection_def)

lemma exampleCollection_Suc:
  "exampleCollection s (Suc f) = exampleCollection s f @ [exampleFinalizedAt (s + f)]"
  by (simp add: exampleCollection_def)

lemma exampleCollection_mem:
  "exampleFinalizedAt n \<in> set (exampleCollection s f) \<longleftrightarrow> s \<le> n \<and> n < s + f"
proof -
  have "exampleFinalizedAt n \<noteq> exampleStreamedAt m" for m
    by (auto dest: arg_cong [where f = status])
  moreover have "exampleFinalizedAt n = exampleFinalizedAt m \<longleftrightarrow> n = m" for m
    by (auto dest: arg_cong [where f = id'])
  ultimately show ?thesis
    by (auto simp: exampleCollection_def image_iff)
qed

lemma exampleCollection_overflow:
  assumes "s \<le> 300" and "s + f \<ge> MAX_STREAMS"
  shows "progressionUpdater 5000 (exampleCollection s (Suc f)) = exampleCollection s f"
proof -
  have "evictOverflow (exampleCollection s f @ exampleFinalizedAt (s + f) # []) = exampleCollection s f @ []"
    using assms(2) by (intro evictOverflow_Finalized) simp_all
  then have "evictOverflow (exampleCollection s (Suc f)) = exampleCollection s f"
    by (simp add: exampleCollection_Suc)
  then show ?thesis
    using assms(1)
    by (simp add: progressionUpdater_eq [OF exampleCollection_distinct] exampleCollection_progress)
qed

lemma evictionExample_result: "progressionUpdater 5000 evictionExample = exampleCollection 50 50"
proof -
  have "progressionUpdater 5000 (exampleCollection 50 (Suc 50)) = exampleCollection 50 50"
    by (rule exampleCollection_overflow) (simp_all add: MAX_STREAMS_def)
  then show ?thesis
    by (simp add: evictionExample_def)
qed

lemma scenario4_result: "progressionUpdater 5000 scenario4 = exampleCollection 95 9"
proof -
  have "progressionUpdater 5000 (exampleCollection 95 (Suc 9)) = exampleCollection 95 9"
    by (rule exampleCollection_overflow) (simp_all add: MAX_STREAMS_def)
  then show ?thesis
    by (simp add: scenario4_def)
qed

section \<open>Facts about the hooks' connection record and the example histories\<close>

lemma catchError_fields:
  "streams (catchError message h) = streams h"
  "lastBlockNumber (catchError message h) = lastBlockNumber h"
  "conn_status (connectionInfo (catchError message h)) = Error"
  "conn_error (connectionInfo (catchError message h)) = Some message"
  by (simp_all add: catchError_def)

lemma fetchAndProcessBlock_throws:
  "fetchAndProcessBlock symbol now (Throws message) b h = catchError message h"
  "lastBlockNumber h \<noteq> 0 \<Longrightarrow> lastBlockNumber h < n \<Longrightarrow>
   fetchAndProcessBlock symbol now (Returns n) (Throws message) h = catchError message h"
  by (simp_all add: fetchAndProcessBlock_def)

lemma fetchAndProcessBlock_new_block:
  assumes "lastBlockNumber h \<noteq> 0" and "lastBlockNumber h < n"
  shows "conn_status (connectionInfo (fetchAndProcessBlock symbol now (Returns n) (Returns b) h)) = Connected"
    and "conn_error (connectionInfo (fetchAndProcessBlock symbol now (Returns n) (Returns b) h)) = None"
  using assms by (simp_all add: fetchAndProcessBlock_def Let_def)

lemma fetchAndProcessBlock_same_head:
  "lastBlockNumber h \<noteq> 0 \<Longrightarrow> n \<le> lastBlockNumber h \<Longrightarrow>
   fetchAndProcessBlock symbol now (Returns n) b h = h"
  by (simp add: fetchAndProcessBlock_def)

lemma pollBlocks_same_head:
  assumes "lastBlockNumber h \<noteq> 0" and "n \<le> lastBlockNumber h"
  shows "conn_status (connectionInfo (pollBlocks symbol now (Returns n) b h)) = Polling"
    and "conn_error (connectionInfo (pollBlocks symbol now (Returns n) b h)) = None"
  using assms by (simp_all add: pollBlocks_def Let_def)

lemma ingestUpdater_single: "ingestUpdater [p] [] = [p]"
  by (simp add: ingestUpdater_def deduplicateStreams_def dedupStep_def MAX_STREAMS_def)

lemma progressionUpdater_single: "progressionUpdater now [p] = [progressStream now p]"
  by (simp add: progressionUpdater_def evictOverflow_def deduplicateStreams_def dedupStep_def
      MAX_STREAMS_def)

lemma exampleHistory_streams: "streams (run ''STT'' exampleHistory exampleInitial) = [exampleStreamed]"
  by (simp add: exampleHistory_def exampleInitial_def initialHook_def fetchAndProcessBlock_def
      exampleBlock101_def exampleBlock_def MAX_TX_PER_BLOCK_def mapTransactionsPolling_def
      exampleStreamed_def ingestUpdater_single)

lemma exampleStreamed_fields:
  "status exampleStreamed = Streamed" "lastStageTime exampleStreamed = 4000"
  "confirmations exampleStreamed = 0"
  by (simp_all add: exampleStreamed_def txToPacketPolling_def txToPacket_def)

lemma exampleStreamed_progressed:
  "status (progressStream 4400 exampleStreamed) = Indexed"
  by (simp add: progressStream_def exampleStreamed_fields STAGE_DURATION_def)

lemma progressAll_Finalized:
  "status p = Finalized \<Longrightarrow> nows \<noteq> [] \<Longrightarrow> progressAll nows p = p\<lparr>confirmations := 3\<rparr>"
proof (induction nows arbitrary: p)
  case Nil
  then show ?case by simp
next
  case (Cons now nows)
  have step: "progressStream now p = p\<lparr>confirmations := 3\<rparr>"
    using Cons.prems(1) by (simp add: progressStream_def)
  show ?case
  proof (cases "nows = []")
    case True
    with step show ?thesis by simp
  next
    case False
    have "progressAll nows (p\<lparr>confirmations := 3\<rparr>) = p\<lparr>confirmations := 3\<rparr>\<lparr>confirmations := 3\<rparr>"
      using Cons.prems(1) False by (intro Cons.IH) simp_all
    with step show ?thesis by simp
  qed
qed

lemma progressionUpdater_within:
  assumes "length prev \<le> MAX_STREAMS" and "distinct (map id' prev)"
  shows "progressionUpdater now prev = map (progressStream now) prev"
  using assms by (simp add: progressionUpdater_eq evictOverflow_within)

lemma run_append: "run symbol (ts @ us) h = run symbol us (run symbol ts h)"
  by (induction ts arbitrary: h) simp_all

lemma progressAll_id [simp]: "id' (progressAll nows p) = id' p"
  by (induction nows arbitrary: p) simp_all

lemma progressAll_three:
  "status p = Streamed \<Longrightarrow> lastStageTime p = 4000 \<Longrightarrow>
   status (progressAll [4400, 4800, 5200] p) = Finalized"
  by (simp add: progressStream_def STAGE_DURATION_def Let_def)

lemma toLowerCase_exampleId: "toLowerCase (exampleId n) = exampleId n"
  by (simp add: toLowerCase_def toLowerChar_def exampleId_def)

lemma txId_exampleTxAt: "txId now index (exampleTxAt n) = exampleId n"
proof -
  have "exampleId n \<noteq> []" by (simp add: exampleId_def)
  then show ?thesis
    by (simp add: txId_def exampleTxAt_def exampleTx_def orElse_def toLowerCase_exampleId)
qed

lemma txToPacketPolling_fields:
  "id' (txToPacketPolling symbol now block index tx) = txId now index tx"
  "status (txToPacketPolling symbol now block index tx) = Streamed"
  "lastStageTime (txToPacketPolling symbol now block index tx) = now"
  by (simp_all add: txToPacketPolling_def txToPacket_def Let_def)

lemma ids_enumerate_exampleTxAt:
  "map id' (map (\<lambda>(index, tx). txToPacketPolling symbol now block index tx)
              (enumerate k (map exampleTxAt ns))) = map exampleId ns"
  by (induction ns arbitrary: k) (simp_all add: txToPacketPolling_fields txId_exampleTxAt)

lemma freshPackets_ids: "map id' (freshPackets now num m k) = map exampleId [m..<m + k]"
  by (simp only: freshPackets_def mapTransactionsPolling_def ids_enumerate_exampleTxAt)

lemma fetch_exampleSingleBlock:
  assumes "lastBlockNumber h \<noteq> 0" and "lastBlockNumber h < n"
  shows "streams (fetchAndProcessBlock ''STT'' now (Returns n) (Returns (exampleSingleBlock num m)) h)
           = ingestUpdater [txToPacketPolling ''STT'' now (exampleSingleBlock num m) 0 (exampleTxAt m)]
               (streams h)"
    and "lastBlockNumber (fetchAndProcessBlock ''STT'' now (Returns n) (Returns (exampleSingleBlock num m)) h) = n"
  using assms
  by (simp_all add: fetchAndProcessBlock_def exampleSingleBlock_def exampleBlock_def
      mapTransactionsPolling_def MAX_TX_PER_BLOCK_def Let_def)

lemma fetch_exampleBlockOf:
  assumes "lastBlockNumber h \<noteq> 0" and "lastBlockNumber h < n" and "0 < k" and "k \<le> 50"
  shows "streams (fetchAndProcessBlock ''STT'' now (Returns n) (Returns (exampleBlockOf num m k)) h)
           = ingestUpdater (freshPackets now num m k) (streams h)"
    and "lastBlockNumber (fetchAndProcessBlock ''STT'' now (Returns n) (Returns (exampleBlockOf num m k)) h) = n"
  using assms
  by (simp_all add: fetchAndProcessBlock_def exampleBlockOf_def exampleBlock_def freshPackets_def
      MAX_TX_PER_BLOCK_def Let_def)

lemma ingestUpdater_fresh:
  assumes "distinct (map id' (news @ prev))" and "news \<noteq> []"
  shows "ingestUpdater news prev = take MAX_STREAMS (news @ prev)"
proof -
  from assms(1) have "\<forall>s\<in>set news. id' s \<notin> set (map id' prev)"
    by auto
  then have "filter (\<lambda>s. id' s \<notin> set (map id' prev)) news = news"
    by (simp add: filter_id_conv)
  with assms show ?thesis
    by (simp add: ingestUpdater_def deduplicateStreams_distinct_ids)
qed

lemma reingest_updater:
  assumes A: "map id' A = map exampleId [a..<a + 50]"
    and B: "map id' B = map exampleId [b..<b + 50]"
    and ab: "0 < a" "a + 50 \<le> b"
    and xF: "id' xF = exampleId 0" and xS: "id' xS = exampleId 0"
  shows "ingestUpdater A [xF] = A @ [xF]"
    and "ingestUpdater B (A @ [xF]) = B @ A"
    and "xS \<in> set (ingestUpdater [xS] (B @ A))"
proof -
  have lenA: "length A = 50"
    using arg_cong [OF A, of length] by simp
  have lenB: "length B = 50"
    using arg_cong [OF B, of length] by simp
  have nonempty: "A \<noteq> []" "B \<noteq> []"
    using lenA lenB by auto
  have d1: "distinct (map id' (A @ [xF]))"
    using ab by (auto simp: A xF distinct_map inj_on_def)
  have d2: "distinct (map id' (B @ A @ [xF]))"
    using ab by (auto simp: A B xF distinct_map inj_on_def)
  have d3: "distinct (map id' ([xS] @ B @ A))"
    using ab by (auto simp: A B xS distinct_map inj_on_def)
  show "ingestUpdater A [xF] = A @ [xF]"
    using ingestUpdater_fresh [OF d1 nonempty(1)] lenA by (simp add: MAX_STREAMS_def)
  show "ingestUpdater B (A @ [xF]) = B @ A"
    using ingestUpdater_fresh [OF d2 nonempty(2)] lenA lenB by (simp add: MAX_STREAMS_def)
  show "xS \<in> set (ingestUpdater [xS] (B @ A))"
    using ingestUpdater_fresh [OF d3] by (simp add: MAX_STREAMS_def)
qed

lemma lifeHistory_state:
  "streams (run ''STT'' lifeHistory exampleInitial) = [evictedPacket]"
  "lastBlockNumber (run ''STT'' lifeHistory exampleInitial) = 101"
proof -
  let ?h1 = "fetchAndProcessBlock ''STT'' 1000 (Returns 100) (Throws ''not called'') exampleInitial"
  have h1: "streams ?h1 = []" "lastBlockNumber ?h1 = 100"
    by (simp_all add: fetchAndProcessBlock_def exampleInitial_def initialHook_def)
  let ?h2 = "fetchAndProcessBlock ''STT'' 4000 (Returns 101) (Returns (exampleSingleBlock 101 0)) ?h1"
  have h2: "streams ?h2 = [txToPacketPolling ''STT'' 4000 (exampleSingleBlock 101 0) 0 (exampleTxAt 0)]"
    "lastBlockNumber ?h2 = 101"
    using fetch_exampleSingleBlock [of ?h1 101 4000 101 0] h1
    by (simp_all add: ingestUpdater_single)
  show "streams (run ''STT'' lifeHistory exampleInitial) = [evictedPacket]"
    by (simp add: lifeHistory_def progressionInterval_def h2 progressionUpdater_single
        evictedPacket_def)
  show "lastBlockNumber (run ''STT'' lifeHistory exampleInitial) = 101"
    by (simp add: lifeHistory_def progressionInterval_def h2)
qed

lemma evictedPacket_fields:
  "id' evictedPacket = exampleId 0" "status evictedPacket = Finalized"
proof -
  show "id' evictedPacket = exampleId 0"
    by (simp only: evictedPacket_def progressAll_id txToPacketPolling_fields txId_exampleTxAt)
  show "status evictedPacket = Finalized"
    unfolding evictedPacket_def
    by (rule progressAll_three) (simp_all only: txToPacketPolling_fields)
qed

lemma reingestedPacket_fields:
  "id' reingestedPacket = exampleId 0" "status reingestedPacket = Streamed"
  by (simp_all add: reingestedPacket_def txToPacketPolling_fields txId_exampleTxAt)

lemma reingestHistory_state:
  "reingestedPacket \<in> set (streams (run ''STT'' (lifeHistory @ reingestHistory) exampleInitial))"
proof -
  let ?h5 = "run ''STT'' lifeHistory exampleInitial"
  let ?A = "freshPackets 7000 102 2 50"
  let ?B = "freshPackets 10000 103 52 50"
  note u = reingest_updater [of ?A 2 ?B 52 evictedPacket reingestedPacket,
      OF freshPackets_ids freshPackets_ids _ _ evictedPacket_fields(1) reingestedPacket_fields(1)]
  have u1: "ingestUpdater ?A [evictedPacket] = ?A @ [evictedPacket]"
    and u2: "ingestUpdater ?B (?A @ [evictedPacket]) = ?B @ ?A"
    and u3: "reingestedPacket \<in> set (ingestUpdater [reingestedPacket] (?B @ ?A))"
    by (rule u; simp)+
  let ?h6 = "fetchAndProcessBlock ''STT'' 7000 (Returns 102) (Returns (exampleBlockOf 102 2 50)) ?h5"
  have h6: "streams ?h6 = ?A @ [evictedPacket]" "lastBlockNumber ?h6 = 102"
    using fetch_exampleBlockOf [of ?h5 102 50 7000 102 2] lifeHistory_state
    by (simp_all add: u1)
  let ?h7 = "fetchAndProcessBlock ''STT'' 10000 (Returns 103) (Returns (exampleBlockOf 103 52 50)) ?h6"
  have h7: "streams ?h7 = ?B @ ?A" "lastBlockNumber ?h7 = 103"
    using fetch_exampleBlockOf [of ?h6 103 50 10000 103 52] h6
    by (simp_all add: u2)
  let ?h8 = "fetchAndProcessBlock ''STT'' 13000 (Returns 104) (Returns (exampleSingleBlock 104 0)) ?h7"
  have h8: "streams ?h8 = ingestUpdater [reingestedPacket] (?B @ ?A)"
    using fetch_exampleSingleBlock [of ?h7 104 13000 104 0] h7
    by (simp add: reingestedPacket_def)
  have "run ''STT'' (lifeHistory @ reingestHistory) exampleInitial = ?h8"
    by (simp add: run_append reingestHistory_def)
  with h8 u3 show ?thesis by simp
qed

section \<open>Facts about the double arithmetic of the value\<close>

lemma roundNat_eval:
  "downScale v 1 = dn \<Longrightarrow> roundHalfEven v dn = m \<Longrightarrow> roundNat v = m * dn"
  by (simp add: roundNat_def Let_def)

lemma divideDouble_eval:
  "downScale N D = dn \<Longrightarrow> upScale N (D * dn) = up \<Longrightarrow> roundHalfEven (N * up) (D * dn) = m
   \<Longrightarrow> divideDouble N D = of_nat m * of_nat dn / of_nat up"
  by (simp add: divideDouble_def Let_def)

lemma zeroPointZeroOne_value: "zeroPointZeroOne = 5764607523034235 / 576460752303423488"
proof -
  have "divideDouble 1 100 = of_nat 5764607523034235 * of_nat 1 / of_nat 576460752303423488"
  proof (rule divideDouble_eval)
    show "downScale 1 100 = 1" by (simp add: downScale.simps)
    show "upScale 1 (100 * 1) = 576460752303423488" by (simp add: upScale.simps)
    show "roundHalfEven (1 * 576460752303423488) (100 * 1) = 5764607523034235"
      by (simp add: roundHalfEven_def Let_def)
  qed
  then show ?thesis by (simp add: zeroPointZeroOne_def)
qed

lemma roundNat_values:
  "roundNat 20000000000000000 = 20000000000000000"
  "roundNat 1000000000000000 = 1000000000000000"
  "roundNat 10000000000000001 = 10000000000000000"
  "roundNat 10000000000000002 = 10000000000000002"
proof -
  have "roundNat 20000000000000000 = 5000000000000000 * 4"
    by (rule roundNat_eval) (simp_all add: downScale.simps roundHalfEven_def Let_def)
  then show "roundNat 20000000000000000 = 20000000000000000" by simp
  have "roundNat 1000000000000000 = 1000000000000000 * 1"
    by (rule roundNat_eval) (simp_all add: downScale.simps roundHalfEven_def Let_def)
  then show "roundNat 1000000000000000 = 1000000000000000" by simp
  have "roundNat 10000000000000001 = 5000000000000000 * 2"
    by (rule roundNat_eval) (simp_all add: downScale.simps roundHalfEven_def Let_def)
  then show "roundNat 10000000000000001 = 10000000000000000" by simp
  have "roundNat 10000000000000002 = 5000000000000001 * 2"
    by (rule roundNat_eval) (simp_all add: downScale.simps roundHalfEven_def Let_def)
  then show "roundNat 10000000000000002 = 10000000000000002" by simp
qed

lemma divideDouble_values:
  "divideDouble 20000000000000000 1000000000000000000 = 5764607523034235 / 288230376151711744"
  "divideDouble 1000000000000000 1000000000000000000 = 4611686018427388 / 4611686018427387904"
  "divideDouble 10000000000000000 1000000000000000000 = 5764607523034235 / 576460752303423488"
  "divideDouble 10000000000000002 1000000000000000000 = 5764607523034236 / 576460752303423488"
proof -
  have "divideDouble 20000000000000000 1000000000000000000
        = of_nat 5764607523034235 * of_nat 1 / of_nat 288230376151711744"
    by (rule divideDouble_eval)
      (simp_all add: downScale.simps upScale.simps roundHalfEven_def Let_def)
  then show "divideDouble 20000000000000000 1000000000000000000
             = 5764607523034235 / 288230376151711744" by simp
  have "divideDouble 1000000000000000 1000000000000000000
        = of_nat 4611686018427388 * of_nat 1 / of_nat 4611686018427387904"
    by (rule divideDouble_eval)
      (simp_all add: downScale.simps upScale.simps roundHalfEven_def Let_def)
  then show "divideDouble 1000000000000000 1000000000000000000
             = 4611686018427388 / 4611686018427387904" by simp
  have "divideDouble 10000000000000000 1000000000000000000
        = of_nat 5764607523034235 * of_nat 1 / of_nat 576460752303423488"
    by (rule divideDouble_eval)
      (simp_all add: downScale.simps upScale.simps roundHalfEven_def Let_def)
  then show "divideDouble 10000000000000000 1000000000000000000
             = 5764607523034235 / 576460752303423488" by simp
  have "divideDouble 10000000000000002 1000000000000000000
        = of_nat 5764607523034236 * of_nat 1 / of_nat 576460752303423488"
    by (rule divideDouble_eval)
      (simp_all add: downScale.simps upScale.simps roundHalfEven_def Let_def)
  then show "divideDouble 10000000000000002 1000000000000000000
             = 5764607523034236 / 576460752303423488" by simp
qed

lemma exceeds_examples:
  "tx_value tx = Some 20000000000000000 \<Longrightarrow> exceeds (txValue tx) zeroPointZeroOne"
  "tx_value tx = Some 1000000000000000 \<Longrightarrow> \<not> exceeds (txValue tx) zeroPointZeroOne"
  "tx_value tx = Some 10000000000000001 \<Longrightarrow> \<not> exceeds (txValue tx) zeroPointZeroOne"
  "tx_value tx = Some 10000000000000002 \<Longrightarrow> exceeds (txValue tx) zeroPointZeroOne"
  "tx_value tx = None \<Longrightarrow> \<not> exceeds (txValue tx) zeroPointZeroOne"
  by (simp_all add: txValue_def roundNat_values divideDouble_values Let_def exceeds_def
      zeroPointZeroOne_value)

section \<open>Capacity of the collection\<close>

text \<open>
  C1. Capacity invariant: starting from the empty collection of a freshly mounted
  hook, after any history of ticks (every ingestion callback merges and truncates,
  the progression callback advances, evicts and deduplicates) the packet collection
  holds at most \<open>MAX_STREAMS\<close> packets. The history \<open>ts\<close> is arbitrary, so the bound
  holds after every tick of it.
\<close>

theorem capacity_invariant:
  "length (streams (run symbol ts (initialHook method chainName url))) \<le> MAX_STREAMS"
  by (rule run_length) (simp add: initialHook_def)

section \<open>Correctness of deduplication\<close>

text \<open>
  C3. Deduplication and merge: the empty input gives the empty output; the output
  has exactly one packet for every id of the input and no other id; the packet kept
  for an id is the first packet of the input among those of that id with the greatest
  status order (a later packet replaces it only with a strictly greater order); and
  of two packets with one id and statuses Streamed and Consolidated, in either input
  order, the Consolidated one is kept.
\<close>

theorem deduplicateStreams_correct:
  "deduplicateStreams [] = []
   \<and> distinct (map id' (deduplicateStreams xs))
   \<and> id' ` set (deduplicateStreams xs) = id' ` set xs
   \<and> (\<forall>r\<in>set (deduplicateStreams xs). keptFirstBest xs r)
   \<and> (id' a = id' b \<and> status a = Streamed \<and> status b = Consolidated
        \<longrightarrow> deduplicateStreams [a, b] = [b] \<and> deduplicateStreams [b, a] = [b])"
proof -
  have "deduplicateStreams [] = []"
    by (simp add: deduplicateStreams_def)
  moreover have "id' a = id' b \<and> status a = Streamed \<and> status b = Consolidated
        \<longrightarrow> deduplicateStreams [a, b] = [b] \<and> deduplicateStreams [b, a] = [b]"
    by (simp add: deduplicateStreams_def dedupStep_def)
  ultimately show ?thesis
    by (simp add: distinct_deduplicateStreams set_ids_deduplicateStreams deduplicateStreams_kept)
qed

theorem deduplicateStreams_correct_witness:
  "deduplicateStreams [packetA, packetB, packetA2, packetB2] = [packetA2, packetB]
   \<and> keptFirstBest [packetA, packetB, packetA2, packetB2] packetA2
   \<and> keptFirstBest [packetA, packetB, packetA2, packetB2] packetB
   \<and> deduplicateStreams [packetA, packetA2] = [packetA2]
   \<and> deduplicateStreams [packetA2, packetA] = [packetA2]"
proof -
  have e: "deduplicateStreams [packetA, packetB, packetA2, packetB2] = [packetA2, packetB]"
    by (simp add: deduplicateStreams_def dedupStep_def packetA_def packetB_def packetA2_def
        packetB2_def examplePacket_def)
  have p: "id' packetA = id' packetA2 \<and> status packetA = Streamed \<and> status packetA2 = Consolidated"
    by (simp add: packetA_def packetA2_def examplePacket_def)
  from deduplicateStreams_correct [of "[packetA, packetB, packetA2, packetB2]" packetA packetA2] e p
  show ?thesis by simp
qed

section \<open>Deduplication of a collection without duplicates\<close>

text \<open>
  C9. Dedup idempotence: deduplicating a collection in which no two packets share
  an id returns that very collection: no id is removed, no packet is changed, and the
  order is the same.
\<close>

theorem deduplicateStreams_idempotent:
  "distinct (map id' xs) \<Longrightarrow> deduplicateStreams xs = xs"
  by (rule deduplicateStreams_distinct_ids)

theorem deduplicateStreams_idempotent_witness:
  "distinct (map id' [packetA, packetB])
   \<and> deduplicateStreams [packetA, packetB] = [packetA, packetB]"
proof -
  have d: "distinct (map id' [packetA, packetB])"
    by (simp add: packetA_def packetB_def examplePacket_def)
  from deduplicateStreams_idempotent [OF d] d show ?thesis by simp
qed

section \<open>Ingestion that brings nothing new\<close>

text \<open>
  C10. No-op ingestion: when the id of every fetched packet is already in the
  collection, the ingestion updater returns the collection it was given, the same
  packets in the same order. The collection is arbitrary: it is returned as it is
  also when it holds duplicates or more than \<open>MAX_STREAMS\<close> packets, so neither
  deduplication nor truncation runs on this path.
\<close>

theorem ingestUpdater_unchanged:
  "\<forall>s\<in>set newStreams. id' s \<in> id' ` set prev \<Longrightarrow> ingestUpdater newStreams prev = prev"
  by (rule ingestUpdater_noop)

theorem ingestUpdater_unchanged_witness:
  "id' packetA2 \<in> id' ` set [packetA, packetB, packetA]
   \<and> id' packetB2 \<in> id' ` set [packetA, packetB, packetA]
   \<and> ingestUpdater [packetA2, packetB2] [packetA, packetB, packetA] = [packetA, packetB, packetA]"
proof -
  have a: "id' packetA2 \<in> id' ` set [packetA, packetB, packetA]"
    and b: "id' packetB2 \<in> id' ` set [packetA, packetB, packetA]"
    by (simp_all add: packetA_def packetB_def packetA2_def packetB2_def examplePacket_def)
  then have "\<forall>s\<in>set [packetA2, packetB2]. id' s \<in> id' ` set [packetA, packetB, packetA]"
    by simp
  from ingestUpdater_unchanged [OF this] a b show ?thesis by simp
qed

section \<open>Monotonic status\<close>

text \<open>
  C2, amended. Monotonic status: in any history of ingestion and progression ticks
  from the freshly mounted hook, for every packet id, as long as a packet with that
  id stays in the collection its status never goes back in the order streamed (0),
  indexed (1), consolidated (2), finalized (3), and once finalized it stays
  finalized. \<open>ts0\<close> is the history up to a state in which the packet \<open>p\<close> is
  live, \<open>ts\<close> the ticks that follow, throughout which the id stays in the
  collection, and \<open>q\<close> the packet of the same id after them.
\<close>

theorem status_monotone:
  assumes "p \<in> set (streams (run symbol ts0 (initialHook method chainName url)))"
    and "q \<in> set (streams (run symbol ts (run symbol ts0 (initialHook method chainName url))))"
    and "id' q = id' p"
    and "\<forall>h'\<in>set (trace symbol ts (run symbol ts0 (initialHook method chainName url))).
           id' p \<in> id' ` set (streams h')"
  shows "statusOrder (status p) \<le> statusOrder (status q)
         \<and> (status p = Finalized \<longrightarrow> status q = Finalized)"
proof -
  have "distinct (map id' (streams (initialHook method chainName url)))"
    by (simp add: initialHook_def)
  then have "distinct (map id' (streams (run symbol ts0 (initialHook method chainName url))))"
    by (rule run_distinct)
  then show ?thesis
    using assms by (rule run_status)
qed

theorem status_monotone_witness:
  "exampleStreamed \<in> set (streams (run ''STT'' exampleHistory exampleInitial))
   \<and> progressStream 4400 exampleStreamed
       \<in> set (streams (run ''STT'' [ProgressionTick 4400] (run ''STT'' exampleHistory exampleInitial)))
   \<and> list_all (\<lambda>h'. id' exampleStreamed \<in> id' ` set (streams h'))
       (trace ''STT'' [ProgressionTick 4400] (run ''STT'' exampleHistory exampleInitial))
   \<and> status exampleStreamed = Streamed
   \<and> status (progressStream 4400 exampleStreamed) = Indexed
   \<and> statusOrder (status exampleStreamed) \<le> statusOrder (status (progressStream 4400 exampleStreamed))"
proof -
  let ?h = "run ''STT'' exampleHistory (initialHook Http ''Somnia Testnet (Shannon)'' ''https://dream-rpc.somnia.network'')"
  have h: "streams ?h = [exampleStreamed]"
    using exampleHistory_streams by (simp add: exampleInitial_def)
  have a: "exampleStreamed \<in> set (streams ?h)"
    by (simp add: h)
  have b: "progressStream 4400 exampleStreamed \<in> set (streams (run ''STT'' [ProgressionTick 4400] ?h))"
    by (simp add: h progressionInterval_def progressionUpdater_single)
  have c: "id' (progressStream 4400 exampleStreamed) = id' exampleStreamed"
    by simp
  have d: "\<forall>h'\<in>set (trace ''STT'' [ProgressionTick 4400] ?h). id' exampleStreamed \<in> id' ` set (streams h')"
    by (simp add: h progressionInterval_def progressionUpdater_single)
  from status_monotone [OF a b c d] a b d show ?thesis
    by (simp add: exampleInitial_def list_all_iff exampleStreamed_fields exampleStreamed_progressed)
qed

text \<open>
  C2 as first stated speaks of every id over any sequence of ticks. The hooks keep
  no record of an id once its packet has left the collection: in \<open>lifeHistory\<close> a
  packet reaches Finalized; in \<open>reingestHistory\<close> two blocks of fifty transactions
  push it beyond \<open>MAX_STREAMS\<close>, where the slice cuts it off, and a block that
  carries its transaction again brings the same id back as Streamed.
\<close>

theorem status_drops_after_reingestion:
  "evictedPacket \<in> set (streams (run ''STT'' lifeHistory exampleInitial))
   \<and> status evictedPacket = Finalized
   \<and> reingestedPacket \<in> set (streams (run ''STT'' (lifeHistory @ reingestHistory) exampleInitial))
   \<and> id' reingestedPacket = id' evictedPacket
   \<and> status reingestedPacket = Streamed
   \<and> statusOrder (status reingestedPacket) < statusOrder (status evictedPacket)"
  by (simp add: lifeHistory_state reingestHistory_state evictedPacket_fields reingestedPacket_fields)

section \<open>What one progression tick does to a packet\<close>

text \<open>
  C4, amended. One progression tick at time \<open>now\<close> transforms each packet on its
  own: a Finalized packet keeps its status and \<open>lastStageTime\<close> and gets
  \<open>confirmations = 3\<close>, so any number of ticks leave it Finalized with three
  confirmations; a packet that is not Finalized, whose \<open>lastStageTime\<close> is not zero
  and for which \<open>now - lastStageTime \<ge> STAGE_DURATION\<close> (300 ms) moves to the next
  status, with \<open>lastStageTime = now\<close> and one more confirmation; every other packet
  is unchanged, among them the packets whose \<open>lastStageTime\<close> is zero, which the
  truthiness test of the callback skips. On a collection within the capacity and
  without duplicate ids the tick is exactly this map.
\<close>

theorem progressStream_postcondition:
  "(status p = Finalized \<longrightarrow> progressStream now p = p\<lparr>confirmations := 3\<rparr>)
   \<and> (status p \<noteq> Finalized \<and> lastStageTime p \<noteq> 0 \<and> now - lastStageTime p \<ge> STAGE_DURATION
        \<longrightarrow> progressStream now p =
              p\<lparr>status := getNextStatus (status p), lastStageTime := now,
                confirmations := confirmations p + 1\<rparr>)
   \<and> (status p \<noteq> Finalized \<and> \<not> (lastStageTime p \<noteq> 0 \<and> now - lastStageTime p \<ge> STAGE_DURATION)
        \<longrightarrow> progressStream now p = p)
   \<and> (status p = Finalized \<and> nows \<noteq> []
        \<longrightarrow> status (progressAll nows p) = Finalized \<and> confirmations (progressAll nows p) = 3
            \<and> lastStageTime (progressAll nows p) = lastStageTime p)
   \<and> (length prev \<le> MAX_STREAMS \<and> distinct (map id' prev)
        \<longrightarrow> progressionUpdater now prev = map (progressStream now) prev)"
proof -
  have "status p \<noteq> Finalized \<Longrightarrow> getNextStatus (status p) \<noteq> status p"
    by (rule getNextStatus_changes)
  then have one: "(status p = Finalized \<longrightarrow> progressStream now p = p\<lparr>confirmations := 3\<rparr>)
   \<and> (status p \<noteq> Finalized \<and> lastStageTime p \<noteq> 0 \<and> now - lastStageTime p \<ge> STAGE_DURATION
        \<longrightarrow> progressStream now p =
              p\<lparr>status := getNextStatus (status p), lastStageTime := now,
                confirmations := confirmations p + 1\<rparr>)
   \<and> (status p \<noteq> Finalized \<and> \<not> (lastStageTime p \<noteq> 0 \<and> now - lastStageTime p \<ge> STAGE_DURATION)
        \<longrightarrow> progressStream now p = p)"
    by (simp add: progressStream_def Let_def)
  have many: "status p = Finalized \<and> nows \<noteq> []
        \<longrightarrow> status (progressAll nows p) = Finalized \<and> confirmations (progressAll nows p) = 3
            \<and> lastStageTime (progressAll nows p) = lastStageTime p"
    by (simp add: progressAll_Finalized)
  have whole: "length prev \<le> MAX_STREAMS \<and> distinct (map id' prev)
        \<longrightarrow> progressionUpdater now prev = map (progressStream now) prev"
    by (simp add: progressionUpdater_within)
  from one many whole show ?thesis by blast
qed

theorem progressStream_postcondition_witness:
  "progressStream 1300 packetA = packetA\<lparr>status := Indexed, lastStageTime := 1300, confirmations := 1\<rparr>
   \<and> progressStream 1299 packetA = packetA
   \<and> progressStream 300 packetZero = packetZero
   \<and> progressStream 9999 packetF = packetF\<lparr>confirmations := 3\<rparr>
   \<and> status (progressAll [1400, 1800, 2200] packetF) = Finalized
   \<and> confirmations (progressAll [1400, 1800, 2200] packetF) = 3
   \<and> progressionUpdater 1300 [packetA, packetB] = [progressStream 1300 packetA, progressStream 1300 packetB]"
proof -
  have f: "status packetA = Streamed" "lastStageTime packetA = 1000" "confirmations packetA = 0"
    "status packetZero = Streamed" "lastStageTime packetZero = 0"
    "status packetF = Finalized"
    "length [packetA, packetB] \<le> MAX_STREAMS" "distinct (map id' [packetA, packetB])"
    by (simp_all add: packetA_def packetB_def packetZero_def packetF_def examplePacket_def
        MAX_STREAMS_def)
  from progressStream_postcondition [of packetA 1300 "[]" "[packetA, packetB]"]
    progressStream_postcondition [of packetA 1299 "[]" "[]"]
    progressStream_postcondition [of packetZero 300 "[]" "[]"]
    progressStream_postcondition [of packetF 9999 "[1400, 1800, 2200]" "[]"]
    f
  show ?thesis by (simp add: STAGE_DURATION_def)
qed

text \<open>
  C4 as first stated has no condition on \<open>lastStageTime\<close> itself. A Streamed packet
  with \<open>lastStageTime = 0\<close> at \<open>now = 300\<close> is 300 ms past its last stage and is
  not Finalized, yet the tick leaves it as it is.
\<close>

theorem progressStream_zero_lastStageTime:
  "status packetZero \<noteq> Finalized
   \<and> 300 - lastStageTime packetZero \<ge> STAGE_DURATION
   \<and> status (progressStream 300 packetZero) = Streamed
   \<and> status (progressStream 300 packetZero) \<noteq> getNextStatus (status packetZero)
   \<and> lastStageTime (progressStream 300 packetZero) \<noteq> 300
   \<and> confirmations (progressStream 300 packetZero) \<noteq> confirmations packetZero + 1"
  by (simp add: progressStream_def packetZero_def examplePacket_def STAGE_DURATION_def)

section \<open>Which packet is evicted\<close>

text \<open>
  C5, amended. When the collection, with pairwise different ids, exceeds
  \<open>MAX_STREAMS\<close> after the packets have been advanced, exactly one packet is
  evicted. If a Finalized packet is present, the evicted one is the last Finalized
  packet in collection order; in a collection kept newest first, as ingestion keeps
  it, no Finalized packet is older than the evicted one. If no Finalized packet is
  present, the last element of the collection is evicted.
\<close>

theorem eviction_choice:
  assumes "length prev > MAX_STREAMS" and "distinct (map id' prev)"
  shows "length (progressionUpdater now prev) = length prev - 1
    \<and> ((\<exists>ys r zs. map (progressStream now) prev = ys @ r # zs \<and> status r = Finalized
            \<and> (\<forall>q\<in>set zs. status q \<noteq> Finalized)
            \<and> progressionUpdater now prev = ys @ zs
            \<and> (sorted_wrt (\<lambda>a b. timestamp a \<ge> timestamp b) prev \<longrightarrow>
                 (\<forall>q\<in>set (map (progressStream now) prev).
                    status q = Finalized \<longrightarrow> timestamp r \<le> timestamp q)))
       \<or> ((\<forall>q\<in>set (map (progressStream now) prev). status q \<noteq> Finalized)
            \<and> progressionUpdater now prev = butlast (map (progressStream now) prev)))"
proof -
  from progressionUpdater_overflow [OF assms, of now] consider
    ys r zs where "map (progressStream now) prev = ys @ r # zs" "status r = Finalized"
      "\<forall>q\<in>set zs. status q \<noteq> Finalized" "progressionUpdater now prev = ys @ zs"
    | "\<forall>q\<in>set (map (progressStream now) prev). status q \<noteq> Finalized"
      "progressionUpdater now prev = butlast (map (progressStream now) prev)"
    by blast
  then have "(\<exists>ys r zs. map (progressStream now) prev = ys @ r # zs \<and> status r = Finalized
            \<and> (\<forall>q\<in>set zs. status q \<noteq> Finalized)
            \<and> progressionUpdater now prev = ys @ zs
            \<and> (sorted_wrt (\<lambda>a b. timestamp a \<ge> timestamp b) prev \<longrightarrow>
                 (\<forall>q\<in>set (map (progressStream now) prev).
                    status q = Finalized \<longrightarrow> timestamp r \<le> timestamp q)))
       \<or> ((\<forall>q\<in>set (map (progressStream now) prev). status q \<noteq> Finalized)
            \<and> progressionUpdater now prev = butlast (map (progressStream now) prev))"
  proof cases
    case 1
    have "sorted_wrt (\<lambda>a b. timestamp a \<ge> timestamp b) prev \<longrightarrow>
            (\<forall>q\<in>set (map (progressStream now) prev).
               status q = Finalized \<longrightarrow> timestamp r \<le> timestamp q)"
      using evicted_is_oldest [OF _ 1(1) 1(3)] by blast
    with 1 show ?thesis by blast
  next
    case 2
    then show ?thesis by blast
  qed
  with progressionUpdater_overflow_length [OF assms, of now] show ?thesis
    by blast
qed

theorem eviction_choice_witness:
  "length evictionExample > MAX_STREAMS
   \<and> distinct (map id' evictionExample)
   \<and> length (progressionUpdater 5000 evictionExample) = 100
   \<and> progressionUpdater 5000 evictionExample = exampleCollection 50 50"
proof -
  have a: "length evictionExample > MAX_STREAMS"
    by (simp add: evictionExample_def MAX_STREAMS_def)
  have b: "distinct (map id' evictionExample)"
    by (simp add: evictionExample_def exampleCollection_distinct)
  from eviction_choice [OF a b, of 5000] a b show ?thesis
    by (simp add: evictionExample_result)
qed

text \<open>
  C5 as first stated names the most recently inserted Finalized packet. Ingestion
  puts new packets in front, so in \<open>evictionExample\<close> (101 packets, newest first)
  the most recently inserted Finalized packet is the one at index 50, with timestamp
  4950; the tick evicts the Finalized packet at index 100, with timestamp 4900, and
  keeps the one at index 50.
\<close>

theorem eviction_keeps_newest_Finalized:
  "length evictionExample = 101
   \<and> exampleFinalizedAt 50 \<in> set evictionExample
   \<and> exampleFinalizedAt 100 \<in> set evictionExample
   \<and> status (exampleFinalizedAt 50) = Finalized
   \<and> status (exampleFinalizedAt 100) = Finalized
   \<and> timestamp (exampleFinalizedAt 50) = 4950
   \<and> timestamp (exampleFinalizedAt 100) = 4900
   \<and> exampleFinalizedAt 50 \<in> set (progressionUpdater 5000 evictionExample)
   \<and> exampleFinalizedAt 100 \<notin> set (progressionUpdater 5000 evictionExample)
   \<and> ingestUpdater [packetB] [packetA] = [packetB, packetA]"
proof -
  have "ingestUpdater [packetB] [packetA] = [packetB, packetA]"
    by (simp add: ingestUpdater_def deduplicateStreams_def dedupStep_def MAX_STREAMS_def
        packetA_def packetB_def examplePacket_def)
  then show ?thesis
    by (simp add: evictionExample_result exampleCollection_mem) (simp add: evictionExample_def exampleCollection_mem)
qed

section \<open>A collection of 105 packets\<close>

text \<open>
  C6, amended. If the collection holds 105 packets with pairwise different ids, 10
  of them Finalized, the next progression tick removes one Finalized packet and
  leaves the collection at size 104.
\<close>

theorem overflow_removes_one:
  assumes "length prev = 105" and "finalizedCount prev = 10" and "distinct (map id' prev)"
  shows "length (progressionUpdater now prev) = 104
    \<and> (\<exists>ys r zs. map (progressStream now) prev = ys @ r # zs \<and> status r = Finalized
          \<and> progressionUpdater now prev = ys @ zs)"
proof -
  have over: "length prev > MAX_STREAMS"
    using assms(1) by (simp add: MAX_STREAMS_def)
  have "filter (\<lambda>p. status p = Finalized) prev \<noteq> []"
    using assms(2) by (auto simp: finalizedCount_def)
  then obtain p where "p \<in> set prev" "status p = Finalized"
    by (auto simp: filter_empty_conv)
  then have "\<exists>q\<in>set (map (progressStream now) prev). status q = Finalized"
    by (auto intro: progressStream_Finalized)
  with progressionUpdater_overflow [OF over assms(3), of now]
  have "\<exists>ys r zs. map (progressStream now) prev = ys @ r # zs \<and> status r = Finalized
          \<and> progressionUpdater now prev = ys @ zs"
    by blast
  with progressionUpdater_overflow_length [OF over assms(3), of now] assms(1)
  show ?thesis by simp
qed

theorem overflow_removes_one_witness:
  "length scenario4 = 105 \<and> finalizedCount scenario4 = 10 \<and> distinct (map id' scenario4)
   \<and> length (progressionUpdater 5000 scenario4) = 104"
proof -
  have a: "length scenario4 = 105" and b: "finalizedCount scenario4 = 10"
    and c: "distinct (map id' scenario4)"
    by (simp_all add: scenario4_def exampleCollection_finalizedCount exampleCollection_distinct)
  from overflow_removes_one [OF a b c, of 5000] a b c show ?thesis by simp
qed

text \<open>
  C6 as first stated ends at size 100. On \<open>scenario4\<close>, 105 packets of which the
  last 10 are Finalized, the tick removes one packet and leaves 104.
\<close>

theorem overflow_leaves_104:
  "length scenario4 = 105
   \<and> finalizedCount scenario4 = 10
   \<and> progressionUpdater 5000 scenario4 = exampleCollection 95 9
   \<and> length (progressionUpdater 5000 scenario4) = 104
   \<and> length (progressionUpdater 5000 scenario4) \<noteq> 100"
  by (simp add: scenario4_result) (simp add: scenario4_def exampleCollection_finalizedCount)

section \<open>Connection status after a failed fetch\<close>

text \<open>
  C7. When the fetch throws on a tick, the status becomes \<open>Error\<close> with the message,
  the collection is untouched, and the design has the status return to connected
  on the next successful fetch. The polling-only hook writes the connection record
  only on its first run and when the head has advanced: in \<open>outageHistory\<close> the
  cursor is set to block 100, the next fetch throws, and the fetch after that
  succeeds with the head still at 100; the status is still \<open>Error\<close> and the message
  is still there. The polling fallback of the WebSocket hook, on the same outcomes,
  is back at \<open>Polling\<close> with the message cleared.
\<close>

theorem fetchAndProcessBlock_error_persists:
  "conn_status (connectionInfo (run ''STT'' outageHistory exampleInitial)) = Error
   \<and> conn_error (connectionInfo (run ''STT'' outageHistory exampleInitial)) = Some ''network error''
   \<and> conn_status (connectionInfo (run ''STT'' outageHistoryFallback exampleInitial)) = Polling
   \<and> conn_error (connectionInfo (run ''STT'' outageHistoryFallback exampleInitial)) = None"
  by (simp add: outageHistory_def outageHistoryFallback_def exampleInitial_def initialHook_def
      fetchAndProcessBlock_def pollBlocks_def catchError_def)

section \<open>Classification of a transaction\<close>

text \<open>
  C8, amended. For every transaction mapped to a packet, \<open>eventType\<close> is
  \<open>Transfer\<close> when the decoded value, the double that the hook computes as
  \<^verbatim>\<open>Number(tx.value) / 1e18\<close>, strictly exceeds the double \<^verbatim>\<open>0.01\<close>, and
  \<open>Transaction\<close> otherwise, whether or not there is a recipient; it is never
  \<open>Contract Deploy\<close>. The missing recipient shows in the payload: \<open>data.type\<close>
  is \<open>Contract Deploy\<close> when no recipient address is present and \<open>Transfer\<close>
  otherwise. A value of 0.02 native units gives \<open>Transfer\<close> and a value of 0.001
  gives \<open>Transaction\<close>. At the threshold the rounding of the doubles decides: one
  wei above 0.01 native units decodes to the double \<^verbatim>\<open>0.01\<close> itself and gives
  \<open>Transaction\<close>, two wei above give \<open>Transfer\<close>.
\<close>

theorem eventType_classification:
  "eventType (txToPacket symbol now number index tx)
     = (if exceeds (txValue tx) zeroPointZeroOne then ''Transfer'' else ''Transaction'')
   \<and> eventType (txToPacketPolling symbol now block index tx)
     = (if exceeds (txValue tx) zeroPointZeroOne then ''Transfer'' else ''Transaction'')
   \<and> eventType (txToPacket symbol now number index tx) \<noteq> ''Contract Deploy''
   \<and> eventType (txToPacketPolling symbol now block index tx) \<noteq> ''Contract Deploy''
   \<and> map_of (data (txToPacket symbol now number index tx)) ''type''
     = Some (Str (if truthy (tx_to tx) then ''Transfer'' else ''Contract Deploy''))
   \<and> map_of (data (txToPacketPolling symbol now block index tx)) ''type''
     = Some (Str (if truthy (tx_to tx) then ''Transfer'' else ''Contract Deploy''))
   \<and> (tx_value tx = Some 20000000000000000
        \<longrightarrow> eventType (txToPacket symbol now number index tx) = ''Transfer''
          \<and> eventType (txToPacketPolling symbol now block index tx) = ''Transfer'')
   \<and> (tx_value tx = Some 1000000000000000
        \<longrightarrow> eventType (txToPacket symbol now number index tx) = ''Transaction''
          \<and> eventType (txToPacketPolling symbol now block index tx) = ''Transaction'')
   \<and> (tx_value tx = Some 10000000000000001
        \<longrightarrow> eventType (txToPacket symbol now number index tx) = ''Transaction'')
   \<and> (tx_value tx = Some 10000000000000002
        \<longrightarrow> eventType (txToPacket symbol now number index tx) = ''Transfer'')"
proof -
  have general:
    "eventType (txToPacket symbol now number index tx)
       = (if exceeds (txValue tx) zeroPointZeroOne then ''Transfer'' else ''Transaction'')"
    "eventType (txToPacketPolling symbol now block index tx)
       = (if exceeds (txValue tx) zeroPointZeroOne then ''Transfer'' else ''Transaction'')"
    "map_of (data (txToPacket symbol now number index tx)) ''type''
       = Some (Str (if truthy (tx_to tx) then ''Transfer'' else ''Contract Deploy''))"
    "map_of (data (txToPacketPolling symbol now block index tx)) ''type''
       = Some (Str (if truthy (tx_to tx) then ''Transfer'' else ''Contract Deploy''))"
    by (simp_all add: txToPacket_def txToPacketPolling_def Let_def)
  have never:
    "eventType (txToPacket symbol now number index tx) \<noteq> ''Contract Deploy''"
    "eventType (txToPacketPolling symbol now block index tx) \<noteq> ''Contract Deploy''"
    by (simp_all add: general)
  have a: "tx_value tx = Some 20000000000000000
        \<longrightarrow> eventType (txToPacket symbol now number index tx) = ''Transfer''
          \<and> eventType (txToPacketPolling symbol now block index tx) = ''Transfer''"
    by (simp add: general exceeds_examples)
  have b: "tx_value tx = Some 1000000000000000
        \<longrightarrow> eventType (txToPacket symbol now number index tx) = ''Transaction''
          \<and> eventType (txToPacketPolling symbol now block index tx) = ''Transaction''"
    by (simp add: general exceeds_examples)
  have c: "tx_value tx = Some 10000000000000001
        \<longrightarrow> eventType (txToPacket symbol now number index tx) = ''Transaction''"
    by (simp add: general exceeds_examples)
  have d: "tx_value tx = Some 10000000000000002
        \<longrightarrow> eventType (txToPacket symbol now number index tx) = ''Transfer''"
    by (simp add: general exceeds_examples)
  from general never a b c d show ?thesis by blast
qed

theorem eventType_classification_witness:
  "eventType (txToPacket ''STT'' 4000 (Some 101) 0 (exampleTx ''0xAA'' 20000000000000000)) = ''Transfer''
   \<and> eventType (txToPacket ''STT'' 4000 (Some 101) 1 (exampleTx ''0xAB'' 1000000000000000)) = ''Transaction''
   \<and> eventType (txToPacket ''STT'' 4000 (Some 101) 2 (exampleTx ''0xAC'' 10000000000000001)) = ''Transaction''
   \<and> eventType (txToPacket ''STT'' 4000 (Some 101) 3 (exampleTx ''0xAD'' 10000000000000002)) = ''Transfer''
   \<and> map_of (data (txToPacket ''STT'' 4000 (Some 101) 4 contractCreationTx)) ''type''
       = Some (Str ''Contract Deploy'')
   \<and> eventType (txToPacket ''STT'' 4000 (Some 101) 4 contractCreationTx) = ''Transaction''"
proof -
  have v: "tx_value (exampleTx ''0xAA'' 20000000000000000) = Some 20000000000000000"
    "tx_value (exampleTx ''0xAB'' 1000000000000000) = Some 1000000000000000"
    "tx_value (exampleTx ''0xAC'' 10000000000000001) = Some 10000000000000001"
    "tx_value (exampleTx ''0xAD'' 10000000000000002) = Some 10000000000000002"
    "\<not> truthy (tx_to contractCreationTx)" "tx_value contractCreationTx = None"
    by (simp_all add: exampleTx_def contractCreationTx_def truthy_def)
  from eventType_classification [of "''STT''" 4000 "Some 101" 0 "exampleTx ''0xAA'' 20000000000000000" exampleBlock101]
    eventType_classification [of "''STT''" 4000 "Some 101" 1 "exampleTx ''0xAB'' 1000000000000000" exampleBlock101]
    eventType_classification [of "''STT''" 4000 "Some 101" 2 "exampleTx ''0xAC'' 10000000000000001" exampleBlock101]
    eventType_classification [of "''STT''" 4000 "Some 101" 3 "exampleTx ''0xAD'' 10000000000000002" exampleBlock101]
    eventType_classification [of "''STT''" 4000 "Some 101" 4 contractCreationTx exampleBlock101]
    v
  show ?thesis by (simp add: exceeds_examples)
qed

text \<open>
  C8 as first stated gives \<open>eventType = Contract Deploy\<close> to a transaction without
  recipient. \<open>contractCreationTx\<close> has none, and both hooks give it
  \<open>eventType = Transaction\<close>.
\<close>

theorem eventType_never_Contract_Deploy:
  "tx_to contractCreationTx = None
   \<and> eventType (txToPacket ''STT'' 4000 (Some 101) 0 contractCreationTx) = ''Transaction''
   \<and> eventType (txToPacket ''STT'' 4000 (Some 101) 0 contractCreationTx) \<noteq> ''Contract Deploy''
   \<and> eventType (txToPacketPolling ''STT'' 4000 exampleBlock101 0 contractCreationTx) = ''Transaction''
   \<and> eventType (txToPacketPolling ''STT'' 4000 exampleBlock101 0 contractCreationTx) \<noteq> ''Contract Deploy''"
proof -
  have "tx_value contractCreationTx = None" and "tx_to contractCreationTx = None"
    by (simp_all add: contractCreationTx_def)
  then show ?thesis
    by (simp add: txToPacket_def txToPacketPolling_def Let_def exceeds_examples)
qed

end
